theory Spec2Isabelle
  imports Main "HOL-Library.AList"
begin

section \<open>The object store\<close>

text \<open>
  The application module (\<^verbatim>\<open>lib/application.js\<close>) works on JavaScript objects:
  it derives objects from prototypes, assigns properties and reads them through the
  prototype chain. The store below is the part of that object model the module uses.

  \<^item> A property key is a string or a symbol (\<^verbatim>\<open>KEYS\<close>, \<^verbatim>\<open>LOCALS\<close> are symbols).
  \<^item> A value is a primitive (a symbol is one), a reference to an object of the store, or
    a function. Functions are opaque but for their name: the module never calls a function
    it is handed, it only binds one (\<^verbatim>\<open>context.onerror.bind(context)\<close>), which gives
    \<open>VBound f this\<close>, and reads the names of route handlers.
  \<^item> An object has a prototype (\<^verbatim>\<open>null\<close> or an object) and its own properties, in
    insertion order. All properties are plain writable, enumerable data properties:
    accessors and property attributes belong to the prototypes the framework supplies and
    are outside this module.
  \<^item> The store is the list of all objects ever allocated; an address is an index, and
    allocation appends. An object's prototype is fixed when it is allocated, so it is
    always an older object: prototype chains strictly descend.
\<close>

type_synonym addr = nat

datatype key = Str string | Sym string

datatype val =
    VUndefined
  | VNull
  | VBool bool
  | VNum int
  | VStr string
  | VRef addr
  | VFun string
  | VBound val val
  | VSym string

record obj =
  proto :: val
  props :: "(key \<times> val) list"

type_synonym heap = "obj list"

datatype error = TypeError string | Error string

text \<open>JavaScript truthiness (\<^verbatim>\<open>!x\<close>, \<^verbatim>\<open>if (x)\<close>, \<^verbatim>\<open>a || b\<close>).\<close>

fun truthy :: "val \<Rightarrow> bool" where
  "truthy VUndefined = False"
| "truthy VNull = False"
| "truthy (VBool b) = b"
| "truthy (VNum n) = (n \<noteq> 0)"
| "truthy (VStr s) = (s \<noteq> [])"
| "truthy (VRef a) = True"
| "truthy (VFun f) = True"
| "truthy (VBound f t) = True"
| "truthy (VSym s) = True"

definition alloc :: "heap \<Rightarrow> obj \<Rightarrow> heap \<times> addr" where
  "alloc h ob = (h @ [ob], length h)"

text \<open>
  \<^verbatim>\<open>o[k]\<close> on an object: the own property if there is one, else the prototype's.
  A prototype that is not an older object of the store ends the chain.
\<close>

function get :: "heap \<Rightarrow> addr \<Rightarrow> key \<Rightarrow> val" where
  "get h a k =
     (if a < length h then
        (case map_of (props (h ! a)) k of
           Some v \<Rightarrow> v
         | None \<Rightarrow>
            (case proto (h ! a) of
               VRef p \<Rightarrow> if p < a then get h p k else VUndefined
             | _ \<Rightarrow> VUndefined))
      else VUndefined)"
  by pat_completeness auto
termination
  by (relation "measure (\<lambda>(h, a, k). a)") auto

declare get.simps [simp del]

text \<open>
  \<^verbatim>\<open>o[k] = v\<close> on an object of data properties: the receiver gets (or updates) its
  own property; the prototype is never written.
\<close>

definition put :: "heap \<Rightarrow> addr \<Rightarrow> key \<Rightarrow> val \<Rightarrow> heap" where
  "put h a k v =
     (if a < length h
      then h[a := (h ! a)\<lparr>props := AList.update k v (props (h ! a))\<rparr>]
      else h)"

text \<open>Decimal digits of a number, as \<^verbatim>\<open>String(n)\<close> and template literals print it.\<close>

definition digit :: "nat \<Rightarrow> char" where
  "digit d = ''0123456789'' ! d"

function show_nat :: "nat \<Rightarrow> string" where
  "show_nat n = (if n < 10 then [digit n] else show_nat (n div 10) @ [digit (n mod 10)])"
  by pat_completeness auto
termination
  by (relation "measure (\<lambda>n. n)") auto

declare show_nat.simps [simp del]

text \<open>
  The own properties of a string: its \<^verbatim>\<open>length\<close> and one character per index.
\<close>

definition str_prop :: "string \<Rightarrow> key \<Rightarrow> val" where
  "str_prop s k =
     (case k of
        Str n \<Rightarrow>
          if n = ''length'' then VNum (int (length s))
          else (case find (\<lambda>i. show_nat i = n) [0..<length s] of
                  Some i \<Rightarrow> VStr [s ! i]
                | None \<Rightarrow> VUndefined)
      | Sym n \<Rightarrow> VUndefined)"

text \<open>
  \<^verbatim>\<open>v[k]\<close> on any value: reading a property of \<^verbatim>\<open>undefined\<close> or \<^verbatim>\<open>null\<close>
  throws a TypeError. A function value \<open>VFun n\<close> is the function named \<open>n\<close> (the empty
  name for an anonymous one), and binding prefixes the name with \<^verbatim>\<open>bound\<close>; its
  \<^verbatim>\<open>name\<close> is the one property of a function value that is modelled: a function that
  carries further properties is an object of the store. The methods the built-in
  prototypes give to primitives and functions are not modelled and read as
  \<^verbatim>\<open>undefined\<close>.
\<close>

fun function_name :: "val \<Rightarrow> string" where
  "function_name (VFun n) = n"
| "function_name (VBound f t) = ''bound '' @ function_name f"
| "function_name v = []"

definition fun_prop :: "val \<Rightarrow> key \<Rightarrow> val" where
  "fun_prop f k = (if k = Str ''name'' then VStr (function_name f) else VUndefined)"

definition read :: "heap \<Rightarrow> val \<Rightarrow> key \<Rightarrow> val" where
  "read h v k =
     (case v of
        VRef a \<Rightarrow> get h a k
      | VStr s \<Rightarrow> str_prop s k
      | VFun n \<Rightarrow> fun_prop v k
      | VBound f t \<Rightarrow> fun_prop v k
      | _ \<Rightarrow> VUndefined)"

definition getV :: "heap \<Rightarrow> val \<Rightarrow> key \<Rightarrow> error + val" where
  "getV h v k =
     (case v of
        VUndefined \<Rightarrow> Inl (TypeError ''Cannot read properties of undefined'')
      | VNull \<Rightarrow> Inl (TypeError ''Cannot read properties of null'')
      | _ \<Rightarrow> Inr (read h v k))"

text \<open>
  \<^verbatim>\<open>Object.create(p)\<close>: a new object without own properties whose prototype is
  \<open>p\<close>; a prototype that is neither an object nor \<^verbatim>\<open>null\<close> is a TypeError.
\<close>

definition Object_create :: "heap \<Rightarrow> val \<Rightarrow> error + (heap \<times> addr)" where
  "Object_create h p =
     (case p of
        VUndefined \<Rightarrow> Inl (TypeError ''Object prototype may only be an Object or null'')
      | VBool b \<Rightarrow> Inl (TypeError ''Object prototype may only be an Object or null'')
      | VNum n \<Rightarrow> Inl (TypeError ''Object prototype may only be an Object or null'')
      | VStr s \<Rightarrow> Inl (TypeError ''Object prototype may only be an Object or null'')
      | VSym s \<Rightarrow> Inl (TypeError ''Object prototype may only be an Object or null'')
      | _ \<Rightarrow> Inr (alloc h \<lparr>proto = p, props = []\<rparr>))"

text \<open>
  \<^verbatim>\<open>f.bind(this)\<close>: a bound function when \<open>f\<close> is a function. On
  \<^verbatim>\<open>undefined\<close> or \<^verbatim>\<open>null\<close> the read of \<^verbatim>\<open>bind\<close> throws; any other value has
  no \<^verbatim>\<open>bind\<close> method to call.
\<close>

definition js_bind :: "val \<Rightarrow> val \<Rightarrow> error + val" where
  "js_bind f this =
     (case f of
        VFun n \<Rightarrow> Inr (VBound f this)
      | VBound g t \<Rightarrow> Inr (VBound f this)
      | VUndefined \<Rightarrow> Inl (TypeError ''Cannot read properties of undefined'')
      | VNull \<Rightarrow> Inl (TypeError ''Cannot read properties of null'')
      | _ \<Rightarrow> Inl (TypeError ''bind is not a function''))"

text \<open>Sequencing of steps that may throw: the first error ends the computation.\<close>

definition bindE :: "error + 'a \<Rightarrow> ('a \<Rightarrow> error + 'b) \<Rightarrow> error + 'b" where
  "bindE m f = (case m of Inl e \<Rightarrow> Inl e | Inr x \<Rightarrow> f x)"

section \<open>\<^verbatim>\<open>Application#createContext\<close>\<close>

text \<open>
  \<^verbatim>\<open>createContext(req, res)\<close>, statement by statement. \<open>app\<close> is \<^verbatim>\<open>this\<close>;
  \<open>now\<close> is what \<^verbatim>\<open>Date.now()\<close> returns. A chained assignment
  \<^verbatim>\<open>a.x = b.x = v\<close> writes \<open>b.x\<close> first.
\<close>

definition createContext :: "heap \<Rightarrow> val \<Rightarrow> val \<Rightarrow> val \<Rightarrow> int \<Rightarrow> error + (heap \<times> addr)" where
  "createContext h app req res now =
     bindE (getV h app (Str ''context'')) (\<lambda>appContext.
     bindE (Object_create h appContext) (\<lambda>(h1, context).
     bindE (getV h1 app (Str ''request'')) (\<lambda>appRequest.
     bindE (Object_create h1 appRequest) (\<lambda>(h2, request).
     let h3 = put h2 context (Str ''request'') (VRef request) in
     bindE (getV h3 app (Str ''response'')) (\<lambda>appResponse.
     bindE (Object_create h3 appResponse) (\<lambda>(h4, response).
     let h5 = put h4 context (Str ''response'') (VRef response);
         h6 = put h5 response (Str ''app'') app;
         h7 = put h6 request (Str ''app'') app;
         h8 = put h7 context (Str ''app'') app;
         h9 = put h8 response (Str ''req'') req;
         h10 = put h9 request (Str ''req'') req;
         h11 = put h10 context (Str ''req'') req;
         h12 = put h11 response (Str ''res'') res;
         h13 = put h12 request (Str ''res'') res;
         h14 = put h13 context (Str ''res'') res;
         h15 = put h14 response (Str ''ctx'') (VRef context);
         h16 = put h15 request (Str ''ctx'') (VRef context);
         h17 = put h16 request (Str ''response'') (VRef response);
         h18 = put h17 response (Str ''request'') (VRef request) in
     bindE (js_bind (get h18 context (Str ''onerror'')) (VRef context)) (\<lambda>onerror.
     let h19 = put h18 context (Str ''onerror'') onerror in
     bindE (getV h19 req (Str ''url'')) (\<lambda>url.
     let h20 = put h19 request (Str ''originalUrl'') url;
         h21 = put h20 context (Str ''originalUrl'') url;
         h22 = put h21 context (Str ''starttime'') (VNum now) in
     Inr (h22, context)))))))))"

text \<open>
  What \<^verbatim>\<open>createContext\<close> relies on in its receiver: the application is an object of
  the store whose \<^verbatim>\<open>context\<close>, \<^verbatim>\<open>request\<close> and \<^verbatim>\<open>response\<close> properties are
  objects (the prototypes the framework's constructor installs and the loader extends),
  and the context prototype resolves \<^verbatim>\<open>onerror\<close> to a function. A value is valid
  in a store when it does not point outside it.
\<close>

definition is_function :: "val \<Rightarrow> bool" where
  "is_function v = (case v of VFun n \<Rightarrow> True | VBound f t \<Rightarrow> True | _ \<Rightarrow> False)"

definition valid :: "heap \<Rightarrow> val \<Rightarrow> bool" where
  "valid h v = (case v of VRef a \<Rightarrow> a < length h | _ \<Rightarrow> True)"

definition wf_app :: "heap \<Rightarrow> val \<Rightarrow> bool" where
  "wf_app h app =
     (case app of
        VRef a \<Rightarrow> a < length h \<and>
          (case get h a (Str ''context'') of
             VRef c \<Rightarrow> c < length h \<and> is_function (get h c (Str ''onerror''))
           | _ \<Rightarrow> False) \<and>
          (case get h a (Str ''request'') of VRef r \<Rightarrow> r < length h | _ \<Rightarrow> False) \<and>
          (case get h a (Str ''response'') of VRef s \<Rightarrow> s < length h | _ \<Rightarrow> False)
      | _ \<Rightarrow> False)"

text \<open>
  The three facets of a context, the application property that holds the prototype of
  each, and the own properties \<^verbatim>\<open>createContext\<close> assigns to each, in order.
\<close>

datatype facet = Context | Request | Response

fun facet_of :: "heap \<Rightarrow> addr \<Rightarrow> facet \<Rightarrow> val" where
  "facet_of h c Context = VRef c"
| "facet_of h c Request = get h c (Str ''request'')"
| "facet_of h c Response = get h c (Str ''response'')"

fun prototype_key :: "facet \<Rightarrow> key" where
  "prototype_key Context = Str ''context''"
| "prototype_key Request = Str ''request''"
| "prototype_key Response = Str ''response''"

fun assigned :: "facet \<Rightarrow> key list" where
  "assigned Context =
     map Str [''request'', ''response'', ''app'', ''req'', ''res'', ''onerror'',
              ''originalUrl'', ''starttime'']"
| "assigned Request =
     map Str [''app'', ''req'', ''res'', ''ctx'', ''response'', ''originalUrl'']"
| "assigned Response =
     map Str [''app'', ''req'', ''res'', ''ctx'', ''request'']"

text \<open>A sequence of property writes \<^verbatim>\<open>o[k] = v\<close>, and the (object, key) pairs it writes.\<close>

definition puts :: "(addr \<times> key \<times> val) list \<Rightarrow> heap \<Rightarrow> heap" where
  "puts ws h = fold (\<lambda>(a, k, v) h. put h a k v) ws h"

definition written :: "(addr \<times> key \<times> val) list \<Rightarrow> (addr \<times> key) set" where
  "written ws = (\<lambda>(a, k, v). (a, k)) ` set ws"

text \<open>
  A small store for the examples: \<^verbatim>\<open>Object.prototype\<close> (0) and
  \<^verbatim>\<open>Array.prototype\<close> (1), prototypes for the three facets (2, 3, 4), the
  application (5), a raw request with a \<^verbatim>\<open>url\<close> (6) and a raw response (7).
\<close>

definition example_store :: heap where
  "example_store =
     [\<lparr>proto = VNull, props = []\<rparr>,
      \<lparr>proto = VRef 0, props = []\<rparr>,
      \<lparr>proto = VRef 0, props = [(Str ''onerror'', VFun ''onerror'')]\<rparr>,
      \<lparr>proto = VRef 0, props = [(Str ''ip'', VStr ''0.0.0.0'')]\<rparr>,
      \<lparr>proto = VRef 0, props = [(Str ''status'', VNum 404)]\<rparr>,
      \<lparr>proto = VRef 0,
       props = [(Str ''context'', VRef 2), (Str ''request'', VRef 3), (Str ''response'', VRef 4)]\<rparr>,
      \<lparr>proto = VRef 0, props = [(Str ''url'', VStr ''/home'')]\<rparr>,
      \<lparr>proto = VRef 0, props = []\<rparr>]"

text \<open>
  The objects \<^verbatim>\<open>createContext\<close> has built when it returns, for a context allocated
  at address \<open>n\<close>: the context at \<open>n\<close>, its request at \<open>n + 1\<close>, its response at
  \<open>n + 2\<close>.
\<close>

definition contextObj :: "nat \<Rightarrow> val \<Rightarrow> val \<Rightarrow> val \<Rightarrow> val \<Rightarrow> val \<Rightarrow> val \<Rightarrow> int \<Rightarrow> obj" where
  "contextObj n appContext app req res onerror url now =
     \<lparr>proto = appContext,
      props = [(Str ''request'', VRef (Suc n)), (Str ''response'', VRef (Suc (Suc n))),
               (Str ''app'', app), (Str ''req'', req), (Str ''res'', res),
               (Str ''onerror'', onerror), (Str ''originalUrl'', url),
               (Str ''starttime'', VNum now)]\<rparr>"

definition requestObj :: "nat \<Rightarrow> val \<Rightarrow> val \<Rightarrow> val \<Rightarrow> val \<Rightarrow> val \<Rightarrow> obj" where
  "requestObj n appRequest app req res url =
     \<lparr>proto = appRequest,
      props = [(Str ''app'', app), (Str ''req'', req), (Str ''res'', res),
               (Str ''ctx'', VRef n), (Str ''response'', VRef (Suc (Suc n))),
               (Str ''originalUrl'', url)]\<rparr>"

definition responseObj :: "nat \<Rightarrow> val \<Rightarrow> val \<Rightarrow> val \<Rightarrow> val \<Rightarrow> obj" where
  "responseObj n appResponse app req res =
     \<lparr>proto = appResponse,
      props = [(Str ''app'', app), (Str ''req'', req), (Str ''res'', res),
               (Str ''ctx'', VRef n), (Str ''request'', VRef (Suc n))]\<rparr>"

section \<open>\<^verbatim>\<open>Application#createAnonymousContext\<close>\<close>

text \<open>
  An object literal \<^verbatim>\<open>{...}\<close> has \<^verbatim>\<open>Object.prototype\<close> as its prototype. It is the
  first object of a store, as the built-in objects exist before any program runs.
\<close>

definition Object_prototype :: val where
  "Object_prototype = VRef 0"

text \<open>The first occurrence of each element, in order (property enumeration never repeats a key).\<close>

definition uniq :: "'a list \<Rightarrow> 'a list" where
  "uniq xs = rev (remdups (rev xs))"

fun str_keys :: "key list \<Rightarrow> string list" where
  "str_keys [] = []"
| "str_keys (Str n # ks) = n # str_keys ks"
| "str_keys (Sym n # ks) = str_keys ks"




text \<open>The own keys of a value, as \<^verbatim>\<open>Object.assign\<close> and \<^verbatim>\<open>Object.keys\<close> list them.\<close>

definition own_keys :: "heap \<Rightarrow> val \<Rightarrow> key list" where
  "own_keys h v =
     (case v of
        VRef a \<Rightarrow> if a < length h then uniq (map fst (props (h ! a))) else []
      | VStr s \<Rightarrow> map (\<lambda>i. Str (show_nat i)) [0..<length s]
      | _ \<Rightarrow> [])"











text \<open>
  A store is closed when no property value points outside it. The writes the loop of
  \<^verbatim>\<open>createAnonymousContext\<close> performs, listed: for \<^verbatim>\<open>headers\<close>, \<^verbatim>\<open>query\<close> and
  \<^verbatim>\<open>socket\<close> one write per own key of the override into the default sub-object, for
  any other key one write into the request.
\<close>

definition closed :: "heap \<Rightarrow> bool" where
  "closed h = (\<forall>ob \<in> set h. \<forall>(k, v) \<in> set (props ob). valid h v)"

definition own :: "heap \<Rightarrow> addr \<Rightarrow> key \<Rightarrow> val option" where
  "own h a k = map_of (props (h ! a)) k"






section \<open>\<^verbatim>\<open>Application#locals\<close>\<close>

text \<open>
  Arrays are objects whose prototype is \<^verbatim>\<open>Array.prototype\<close>, the second object of a
  store; their own properties are their elements, keyed by index, in order.
\<close>

definition Array_prototype :: val where
  "Array_prototype = VRef 1"

definition new_array :: "heap \<Rightarrow> val list \<Rightarrow> heap \<times> addr" where
  "new_array h vs =
     alloc h \<lparr>proto = Array_prototype,
              props = zip (map (\<lambda>i. Str (show_nat i)) [0..<length vs]) vs\<rparr>"

definition is_array :: "heap \<Rightarrow> val \<Rightarrow> bool" where
  "is_array h v =
     (case v of VRef a \<Rightarrow> a < length h \<and> proto (h ! a) = Array_prototype | _ \<Rightarrow> False)"

definition elements :: "heap \<Rightarrow> val \<Rightarrow> val list" where
  "elements h v = (case v of VRef a \<Rightarrow> map snd (props (h ! a)) | _ \<Rightarrow> [])"













section \<open>Effects: console, loggers, sockets, files, listeners\<close>

text \<open>
  What the module does beyond the object store is recorded in a world: the lines handed
  to the console and the loggers and the data handed to sockets, in order (a format string
  with its arguments, unformatted); the files written; and the listeners registered on the
  application, which is an event emitter. A listener is one of the three functions this
  module registers or, \<open>Other\<close>, one registered by other code. \<open>CoreLoggerError l e\<close> is
  the call \<^verbatim>\<open>l.error(e)\<close> on a logger \<open>l\<close> with the error the \<^verbatim>\<open>cookieLimitExceed\<close>
  listener builds; \<open>Graceful s\<close> is the call of \<^verbatim>\<open>graceful\<close> for the server \<open>s\<close>, and
  \<open>ServerOn s n f\<close> the call \<^verbatim>\<open>s.on(n, f)\<close>.
\<close>

datatype listener = OnCookieLimitExceed | OnServer | OnClientError | Other nat

record error_object =
  e_message :: string
  e_name :: string
  e_key :: val
  e_cookie :: val

datatype event =
    ConsoleError string "val list"
  | LoggerError string "val list"
  | LoggerWarn string "val list"
  | CoreLoggerWarn string
  | CoreLoggerError val error_object
  | SocketWrite val "nat list"
  | SocketEnd val
  | Graceful val
  | ServerOn val string listener

record world =
  store :: heap
  files :: "(string \<times> string) list"
  log :: "event list"
  listeners :: "(string \<times> bool \<times> listener) list"

definition emit_log :: "event list \<Rightarrow> world \<Rightarrow> world" where
  "emit_log es w = w\<lparr>log := log w @ es\<rparr>"

fun message :: "error \<Rightarrow> string" where
  "message (TypeError m) = m"
| "message (Error m) = m"

section \<open>\<^verbatim>\<open>Application#keys\<close>\<close>

text \<open>
  \<^verbatim>\<open>s.split(',')\<close> and \<^verbatim>\<open>s.trim()\<close>. A character is a code unit below 256; of
  these, trimming removes tab, line feed, vertical tab, form feed, carriage return, space
  and the no-break space.
\<close>

fun split_on :: "char \<Rightarrow> string \<Rightarrow> string list" where
  "split_on c [] = [[]]"
| "split_on c (x # xs) =
     (if x = c then [] # split_on c xs
      else (case split_on c xs of
              w # ws \<Rightarrow> (x # w) # ws
            | [] \<Rightarrow> [[x]]))"

definition is_space :: "char \<Rightarrow> bool" where
  "is_space c = (of_char c \<in> {9, 10, 11, 12, 13, 32, 160 :: nat})"

definition trim :: "string \<Rightarrow> string" where
  "trim s = rev (dropWhile is_space (rev (dropWhile is_space s)))"

definition KEYS :: key where
  "KEYS = Sym ''Application#keys''"

text \<open>
  The getter of \<^verbatim>\<open>keys\<close>. \<open>join\<close> is \<^verbatim>\<open>path.join\<close> of Node, taken as given; it
  throws when an argument is not a string. The two \<^verbatim>\<open>console.error\<close> lines come after
  the call of \<^verbatim>\<open>path.join\<close>, as in the source.
\<close>

definition keys_get :: "(string \<Rightarrow> string \<Rightarrow> string) \<Rightarrow> world \<Rightarrow> addr \<Rightarrow> (error + val) \<times> world" where
  "keys_get join w app =
     (let h = store w in
      if \<not> truthy (get h app KEYS) then
        (case getV h (get h app (Str ''config'')) (Str ''keys'') of
           Inl e \<Rightarrow> (Inl e, w)
         | Inr ck \<Rightarrow>
            if \<not> truthy ck then
              (let config = get h app (Str ''config'');
                   env = read h config (Str ''env'') in
               if env = VStr ''local'' \<or> env = VStr ''unittest'' then
                 (case read h config (Str ''baseDir'') of
                    VStr baseDir \<Rightarrow>
                      (Inl (Error ''Please set config.keys first''),
                       emit_log
                         [ConsoleError ''Cookie need secret key to sign and encrypt.'' [],
                          ConsoleError ''Please add `config.keys` in %s''
                            [VStr (join baseDir ''config/config.default.js'')]] w)
                  | _ \<Rightarrow>
                      (Inl (TypeError ''The path argument must be of type string''), w))
               else (Inl (Error ''Please set config.keys first''), w))
            else
              (case ck of
                 VStr s \<Rightarrow>
                   (let (h1, arr) = new_array h (map (\<lambda>x. VStr (trim x)) (split_on CHR '','' s));
                        h2 = put h1 app KEYS (VRef arr)
                    in (Inr (get h2 app KEYS), w\<lparr>store := h2\<rparr>))
               | _ \<Rightarrow> (Inl (TypeError ''this.config.keys.split is not a function''), w)))
      else (Inr (get h app KEYS), w))"

section \<open>\<^verbatim>\<open>Application#[WARN_CONFUSED_CONFIG]\<close>\<close>

text \<open>
  \<^verbatim>\<open>Object.keys(confusedConfigurations).forEach(...)\<close>: one pass over the own string
  keys of the mapping; \<^verbatim>\<open>Object.keys\<close> throws on \<^verbatim>\<open>undefined\<close> and \<^verbatim>\<open>null\<close>.
\<close>

fun warn_keys :: "world \<Rightarrow> addr \<Rightarrow> val \<Rightarrow> string list \<Rightarrow> (error + unit) \<times> world" where
  "warn_keys w app cc [] = (Inr (), w)"
| "warn_keys w app cc (key # keys) =
     (case getV (store w) (get (store w) app (Str ''config'')) (Str key) of
        Inl e \<Rightarrow> (Inl e, w)
      | Inr v \<Rightarrow>
         if v \<noteq> VUndefined then
           warn_keys
             (emit_log
                [LoggerWarn ''Unexpected config key `%s` exists, Please use `%s` instead.''
                   [VStr key, read (store w) cc (Str key)]] w)
             app cc keys
         else warn_keys w app cc keys)"

definition warnConfusedConfig :: "world \<Rightarrow> addr \<Rightarrow> (error + unit) \<times> world" where
  "warnConfusedConfig w app =
     (case getV (store w) (get (store w) app (Str ''config'')) (Str ''confusedConfigurations'') of
        Inl e \<Rightarrow> (Inl e, w)
      | Inr cc \<Rightarrow>
         (case cc of
            VUndefined \<Rightarrow> (Inl (TypeError ''Cannot convert undefined or null to object''), w)
          | VNull \<Rightarrow> (Inl (TypeError ''Cannot convert undefined or null to object''), w)
          | _ \<Rightarrow> warn_keys w app cc (str_keys (own_keys (store w) cc))))"

section \<open>\<^verbatim>\<open>Application#onClientError\<close>\<close>

text \<open>
  The response is a JavaScript string, a list of UTF-16 code units; the body holds one
  character outside ASCII, U+2764. \<^verbatim>\<open>Buffer.byteLength\<close> counts the bytes of the UTF-8
  encoding, which is also what a socket sends for a string.
\<close>

definition units :: "string \<Rightarrow> nat list" where
  "units s = map of_char s"

definition utf8_unit :: "nat \<Rightarrow> nat list" where
  "utf8_unit c =
     (if c < 128 then [c]
      else if c < 2048 then [192 + c div 64, 128 + c mod 64]
      else if 55296 \<le> c \<and> c < 57344 then [239, 191, 189]
      else [224 + c div 4096, 128 + (c div 64) mod 64, 128 + c mod 64])"

definition utf8_pair :: "nat \<Rightarrow> nat \<Rightarrow> nat list" where
  "utf8_pair hi lo =
     (let c = 65536 + (hi - 55296) * 1024 + (lo - 56320) in
      [240 + c div 262144, 128 + (c div 4096) mod 64, 128 + (c div 64) mod 64, 128 + c mod 64])"

fun utf8 :: "nat list \<Rightarrow> nat list" where
  "utf8 [] = []"
| "utf8 [c] = utf8_unit c"
| "utf8 (c # d # cs) =
     (if 55296 \<le> c \<and> c < 56320 \<and> 56320 \<le> d \<and> d < 57344
      then utf8_pair c d @ utf8 cs
      else utf8_unit c @ utf8 (d # cs))"

definition byteLength :: "nat list \<Rightarrow> nat" where
  "byteLength s = length (utf8 s)"

definition DEFAULT_BAD_REQUEST_HTML :: "nat list" where
  "DEFAULT_BAD_REQUEST_HTML =
     units ''<html>'' @ [10] @
     units ''  <head><title>400 Bad Request</title></head>'' @ [10] @
     units ''  <body bgcolor='' @ [34] @ units ''white'' @ [34] @ units ''>'' @ [10] @
     units ''  <center><h1>400 Bad Request</h1></center>'' @ [10] @
     units ''  <hr><center>'' @ [10084] @ units ''</center>'' @ [10] @
     units ''  </body>'' @ [10] @
     units ''  </html>''"

definition DEFAULT_BAD_REQUEST_HTML_LENGTH :: nat where
  "DEFAULT_BAD_REQUEST_HTML_LENGTH = byteLength DEFAULT_BAD_REQUEST_HTML"

definition DEFAULT_BAD_REQUEST_RESPONSE :: "nat list" where
  "DEFAULT_BAD_REQUEST_RESPONSE =
     units ''HTTP/1.1 400 Bad Request'' @ [13, 10] @ units ''Content-Length: '' @
     units (show_nat DEFAULT_BAD_REQUEST_HTML_LENGTH) @
     [13, 10, 13, 10] @ DEFAULT_BAD_REQUEST_HTML"

text \<open>
  \<^verbatim>\<open>socket.end(data)\<close> of Node writes the data and then closes the socket; a value that
  is not an object has no \<^verbatim>\<open>end\<close> to call.
\<close>

definition socket_end :: "world \<Rightarrow> val \<Rightarrow> nat list \<Rightarrow> (error + unit) \<times> world" where
  "socket_end w socket data =
     (case socket of
        VRef s \<Rightarrow> (Inr (), emit_log [SocketWrite socket (utf8 data), SocketEnd socket] w)
      | _ \<Rightarrow> (Inl (TypeError ''socket.end is not a function''), w))"

definition onClientError :: "world \<Rightarrow> val \<Rightarrow> val \<Rightarrow> (error + unit) \<times> world" where
  "onClientError w err socket =
     (case getV (store w) socket (Str ''remoteAddress'') of
        Inl e \<Rightarrow> (Inl e, w)
      | Inr remoteAddress \<Rightarrow>
     (case getV (store w) socket (Str ''remotePort'') of
        Inl e \<Rightarrow> (Inl e, w)
      | Inr remotePort \<Rightarrow>
     (case getV (store w) err (Str ''code'') of
        Inl e \<Rightarrow> (Inl e, w)
      | Inr code \<Rightarrow>
     (case getV (store w) err (Str ''message'') of
        Inl e \<Rightarrow> (Inl e, w)
      | Inr msg \<Rightarrow>
          socket_end
            (emit_log
               [LoggerError ''A client (%s:%d) error [%s] occurred: %s''
                  [remoteAddress, remotePort, code, msg]] w)
            socket DEFAULT_BAD_REQUEST_RESPONSE))))"

text \<open>
  A world for the examples: the example store with a socket (8) and an error (9), nothing
  logged or written yet.
\<close>

definition socket_world :: world where
  "socket_world =
     \<lparr>store = example_store @
        [\<lparr>proto = VRef 0,
          props = [(Str ''remoteAddress'', VStr ''10.0.0.7''), (Str ''remotePort'', VNum 51234)]\<rparr>,
         \<lparr>proto = VRef 0,
          props = [(Str ''code'', VStr ''HPE_INVALID_METHOD''), (Str ''message'', VStr ''Parse Error'')]\<rparr>],
      files = [], log = [], listeners = []\<rparr>"

text \<open>
  Worlds for the examples: the example store with a configuration object (8) that the
  application (5) points to, once with \<^verbatim>\<open>keys: 'a, b ,c'\<close> and once without keys in the
  \<^verbatim>\<open>local\<close> environment; \<open>example_join\<close> stands for \<^verbatim>\<open>path.join\<close>.
\<close>

definition config_store :: "(key \<times> val) list \<Rightarrow> heap" where
  "config_store cfg =
     put (example_store @ [\<lparr>proto = VRef 0, props = cfg\<rparr>]) 5 (Str ''config'') (VRef 8)"

definition keys_world :: world where
  "keys_world =
     \<lparr>store = config_store [(Str ''keys'', VStr ''a, b ,c''), (Str ''env'', VStr ''prod'')],
      files = [], log = [], listeners = []\<rparr>"

definition nokeys_world :: world where
  "nokeys_world =
     \<lparr>store = config_store [(Str ''env'', VStr ''local''), (Str ''baseDir'', VStr ''/srv/app'')],
      files = [], log = [], listeners = []\<rparr>"

definition example_join :: "string \<Rightarrow> string \<Rightarrow> string" where
  "example_join a b = a @ ''/'' @ b"


section \<open>\<^verbatim>\<open>Application#dumpConfig\<close>\<close>

text \<open>
  What \<^verbatim>\<open>dumpConfig\<close> uses and the repository does not define is taken as given:
  \<^verbatim>\<open>path.join\<close>; \<^verbatim>\<open>JSON.stringify(v, null, 2)\<close>, which reads the store and may throw;
  the \<^verbatim>\<open>toString\<close> method of a value that has one, whose result does not depend on
  the objects \<^verbatim>\<open>dumpConfig\<close> creates; whether \<^verbatim>\<open>fs.writeFileSync\<close> to a
  path fails, and with which error; \<^verbatim>\<open>super.dumpConfig()\<close>; and, for the constructor,
  \<^verbatim>\<open>this.loader.load()\<close>.
\<close>

record env =
  path_join :: "string \<Rightarrow> string \<Rightarrow> string"
  stringify :: "heap \<Rightarrow> val \<Rightarrow> error + string"
  toString :: "val \<Rightarrow> error + string"
  fs_fails :: "string \<Rightarrow> error option"
  super_dumpConfig :: "world \<Rightarrow> (error + unit) \<times> world"
  loader_load :: "world \<Rightarrow> (error + unit) \<times> world"

text \<open>
  A number and a value as a string (in a template literal, or as a property key); a symbol
  has no string form. A value as a property key, in \<^verbatim>\<open>o[v]\<close>: a symbol is its own key.
\<close>

definition show_int :: "int \<Rightarrow> string" where
  "show_int n = (if n < 0 then ''-'' @ show_nat (nat (- n)) else show_nat (nat n))"

definition template_string :: "env \<Rightarrow> val \<Rightarrow> error + string" where
  "template_string E v =
     (case v of
        VUndefined \<Rightarrow> Inr ''undefined''
      | VNull \<Rightarrow> Inr ''null''
      | VBool b \<Rightarrow> Inr (if b then ''true'' else ''false'')
      | VNum n \<Rightarrow> Inr (show_int n)
      | VStr s \<Rightarrow> Inr s
      | VSym s \<Rightarrow> Inl (TypeError ''Cannot convert a Symbol value to a string'')
      | _ \<Rightarrow> toString E v)"

definition property_key :: "env \<Rightarrow> val \<Rightarrow> error + key" where
  "property_key E v =
     (case v of
        VSym s \<Rightarrow> Inr (Sym s)
      | _ \<Rightarrow> bindE (template_string E v) (\<lambda>s. Inr (Str s)))"

text \<open>
  \<^verbatim>\<open>stack[FULLPATH] || stack._name || stack.name || 'anonymous'\<close> on a handler, where
  \<open>fullpath\<close> is the value of the constant \<^verbatim>\<open>FULLPATH\<close>.
\<close>

definition handler_id :: "env \<Rightarrow> heap \<Rightarrow> val \<Rightarrow> val \<Rightarrow> error + val" where
  "handler_id E h fullpath f =
     (case f of
        VUndefined \<Rightarrow> Inl (TypeError ''Cannot read properties of undefined'')
      | VNull \<Rightarrow> Inl (TypeError ''Cannot read properties of null'')
      | _ \<Rightarrow>
         bindE (property_key E fullpath) (\<lambda>k.
         if truthy (read h f k) then Inr (read h f k)
         else if truthy (read h f (Str ''_name'')) then Inr (read h f (Str ''_name''))
         else if truthy (read h f (Str ''name'')) then Inr (read h f (Str ''name''))
         else Inr (VStr ''anonymous'')))"

fun map_ids :: "env \<Rightarrow> heap \<Rightarrow> val \<Rightarrow> val list \<Rightarrow> error + val list" where
  "map_ids E h fullpath [] = Inr []"
| "map_ids E h fullpath (f # fs) =
     bindE (handler_id E h fullpath f) (\<lambda>i.
     bindE (map_ids E h fullpath fs) (\<lambda>is. Inr (i # is)))"

text \<open>
  The elements of an array, for \<^verbatim>\<open>for ... of\<close> and \<^verbatim>\<open>.map\<close>; any other value is
  taken to be neither iterable nor to have a \<^verbatim>\<open>map\<close> method.
\<close>

definition array_elements :: "heap \<Rightarrow> val \<Rightarrow> error + val list" where
  "array_elements h v =
     (case v of
        VUndefined \<Rightarrow> Inl (TypeError ''Cannot read properties of undefined'')
      | VNull \<Rightarrow> Inl (TypeError ''Cannot read properties of null'')
      | _ \<Rightarrow> if is_array h v then Inr (elements h v) else Inl (TypeError ''not an array''))"

definition call_toString :: "env \<Rightarrow> val \<Rightarrow> error + string" where
  "call_toString E v =
     (case v of
        VUndefined \<Rightarrow> Inl (TypeError ''Cannot read properties of undefined'')
      | VNull \<Rightarrow> Inl (TypeError ''Cannot read properties of null'')
      | _ \<Rightarrow> toString E v)"

text \<open>
  One element of \<^verbatim>\<open>routers\<close>: the property values are read from the layer in the order
  of the literal, then the entry is allocated, with the array of handler identifiers that
  \<^verbatim>\<open>map\<close> returns after it.
\<close>

definition entry_values ::
  "env \<Rightarrow> heap \<Rightarrow> val \<Rightarrow> val \<Rightarrow> error + (val \<times> val \<times> val \<times> val \<times> string \<times> val list)" where
  "entry_values E h fullpath layer =
     bindE (getV h layer (Str ''name'')) (\<lambda>name.
     bindE (getV h layer (Str ''methods'')) (\<lambda>methods.
     bindE (getV h layer (Str ''paramNames'')) (\<lambda>paramNames.
     bindE (getV h layer (Str ''path'')) (\<lambda>path.
     bindE (getV h layer (Str ''regexp'')) (\<lambda>regexp.
     bindE (call_toString E regexp) (\<lambda>re.
     bindE (getV h layer (Str ''stack'')) (\<lambda>stack.
     bindE (array_elements h stack) (\<lambda>handlers.
     bindE (map_ids E h fullpath handlers) (\<lambda>ids.
     Inr (name, methods, paramNames, path, re, ids))))))))))"

definition entry_object :: "addr \<Rightarrow> val \<times> val \<times> val \<times> val \<times> string \<times> val list \<Rightarrow> obj" where
  "entry_object e vs =
     (case vs of (name, methods, paramNames, path, re, ids) \<Rightarrow>
        \<lparr>proto = Object_prototype,
         props = [(Str ''name'', name), (Str ''methods'', methods),
                  (Str ''paramNames'', paramNames), (Str ''path'', path),
                  (Str ''regexp'', VStr re), (Str ''stack'', VRef (Suc e))]\<rparr>)"

definition router_entry :: "env \<Rightarrow> heap \<Rightarrow> val \<Rightarrow> val \<Rightarrow> error + (heap \<times> addr)" where
  "router_entry E h fullpath layer =
     bindE (entry_values E h fullpath layer) (\<lambda>vs.
     let e = length h;
         (h1, a) = new_array (h @ [entry_object e vs]) (snd (snd (snd (snd (snd vs)))))
     in Inr (h1, e))"

text \<open>The loop \<^verbatim>\<open>for (const layer of ...) routers.push({...})\<close>.\<close>

fun build_routers :: "env \<Rightarrow> heap \<Rightarrow> val \<Rightarrow> addr \<Rightarrow> nat \<Rightarrow> val list \<Rightarrow> error + heap" where
  "build_routers E h fullpath routers i [] = Inr h"
| "build_routers E h fullpath routers i (layer # layers) =
     bindE (router_entry E h fullpath layer) (\<lambda>(h1, e).
     build_routers E (put h1 routers (Str (show_nat i)) (VRef e)) fullpath routers (Suc i) layers)"

definition writeFileSync :: "env \<Rightarrow> world \<Rightarrow> string \<Rightarrow> string \<Rightarrow> (error + unit) \<times> world" where
  "writeFileSync E w file content =
     (case fs_fails E file of
        Some e \<Rightarrow> (Inl e, w)
      | None \<Rightarrow> (Inr (), w\<lparr>files := AList.update file content (files w)\<rparr>))"

text \<open>The body of the \<^verbatim>\<open>try\<close> block.\<close>

definition dump_router :: "env \<Rightarrow> world \<Rightarrow> addr \<Rightarrow> val \<Rightarrow> val \<Rightarrow> (error + unit) \<times> world" where
  "dump_router E w app rundir fullpath =
     (case rundir of
        VStr dir \<Rightarrow>
          (let dumpRouterFile = path_join E dir ''router.json'';
               (h1, routers) = new_array (store w) [];
               w1 = w\<lparr>store := h1\<rparr>
           in case bindE (getV h1 (get h1 app (Str ''router'')) (Str ''stack''))
                     (array_elements h1) of
                Inl e \<Rightarrow> (Inl e, w1)
              | Inr layers \<Rightarrow>
                 (case build_routers E h1 fullpath routers 0 layers of
                    Inl e \<Rightarrow> (Inl e, w1)
                  | Inr h2 \<Rightarrow>
                     (case stringify E h2 (VRef routers) of
                        Inl e \<Rightarrow> (Inl e, w\<lparr>store := h2\<rparr>)
                      | Inr content \<Rightarrow>
                          writeFileSync E (w\<lparr>store := h2\<rparr>) dumpRouterFile content)))
      | _ \<Rightarrow> (Inl (TypeError ''The path argument must be of type string''), w))"

text \<open>
  \<^verbatim>\<open>dumpConfig\<close>: an error of \<^verbatim>\<open>super.dumpConfig()\<close>, of reading
  \<^verbatim>\<open>this.config.rundir\<close> or of reading \<^verbatim>\<open>this.loader.FileLoader.FULLPATH\<close> is not
  caught; one of the \<^verbatim>\<open>try\<close> block is logged.
\<close>

definition dumpConfig :: "env \<Rightarrow> world \<Rightarrow> addr \<Rightarrow> (error + unit) \<times> world" where
  "dumpConfig E w app =
     (case super_dumpConfig E w of
        (Inl e, w0) \<Rightarrow> (Inl e, w0)
      | (Inr u, w0) \<Rightarrow>
         (case getV (store w0) (get (store w0) app (Str ''config'')) (Str ''rundir'') of
            Inl e \<Rightarrow> (Inl e, w0)
          | Inr rundir \<Rightarrow>
         (case getV (store w0) (get (store w0) app (Str ''loader'')) (Str ''FileLoader'') of
            Inl e \<Rightarrow> (Inl e, w0)
          | Inr fileLoader \<Rightarrow>
         (case getV (store w0) fileLoader (Str ''FULLPATH'') of
            Inl e \<Rightarrow> (Inl e, w0)
          | Inr fullpath \<Rightarrow>
             (case dump_router E w0 app rundir fullpath of
                (Inl err, w1) \<Rightarrow>
                  (Inr (),
                   emit_log [CoreLoggerWarn (''dumpConfig router.json error: '' @ message err)] w1)
              | (Inr u, w1) \<Rightarrow> (Inr (), w1))))))"

text \<open>
  What the router snapshot is to hold, for comparison with what \<^verbatim>\<open>dumpConfig\<close> builds.
  The identifier of a handler is the first truthy of its load path (its property under the
  key \<open>k\<close> of \<^verbatim>\<open>FULLPATH\<close>), its \<^verbatim>\<open>_name\<close> and its \<^verbatim>\<open>name\<close>, else
  \<^verbatim>\<open>anonymous\<close>. An array of the values \<open>vs\<close> is an object with the array prototype and
  the properties \<open>0\<close>, \<open>1\<close>, ... An entry of the store \<open>h2\<close> describes a layer of the store
  \<open>h\<close>, whose \<^verbatim>\<open>stack\<close> is an array of \<open>h\<close>, when it is an object with exactly the six
  properties \<^verbatim>\<open>name\<close>, \<^verbatim>\<open>methods\<close>, \<^verbatim>\<open>paramNames\<close>, \<^verbatim>\<open>path\<close>, \<^verbatim>\<open>regexp\<close>, \<^verbatim>\<open>stack\<close>
  in this order: the first four are the layer's, \<^verbatim>\<open>regexp\<close> is the string form of the
  layer's, and \<^verbatim>\<open>stack\<close> is an array of the identifiers of the layer's handlers, in
  order.
\<close>

definition handler_name :: "heap \<Rightarrow> key \<Rightarrow> val \<Rightarrow> val" where
  "handler_name h k f =
     (if truthy (read h f k) then read h f k
      else if truthy (read h f (Str ''_name'')) then read h f (Str ''_name'')
      else if truthy (read h f (Str ''name'')) then read h f (Str ''name'')
      else VStr ''anonymous'')"

definition array_object :: "val list \<Rightarrow> obj" where
  "array_object vs =
     \<lparr>proto = Array_prototype, props = zip (map (\<lambda>i. Str (show_nat i)) [0..<length vs]) vs\<rparr>"

definition snapshot_of :: "env \<Rightarrow> heap \<Rightarrow> heap \<Rightarrow> val \<Rightarrow> val \<Rightarrow> val \<Rightarrow> bool" where
  "snapshot_of E h h2 fullpath layer entry =
     (case (entry, read h layer (Str ''stack'')) of
        (VRef e, VRef s) \<Rightarrow>
          e < length h2 \<and> s < length h \<and> proto (h ! s) = Array_prototype \<and>
          proto (h2 ! e) = Object_prototype \<and>
          map fst (props (h2 ! e)) =
            [Str ''name'', Str ''methods'', Str ''paramNames'', Str ''path'', Str ''regexp'',
             Str ''stack''] \<and>
          map_of (props (h2 ! e)) (Str ''name'') = Some (read h layer (Str ''name'')) \<and>
          map_of (props (h2 ! e)) (Str ''methods'') = Some (read h layer (Str ''methods'')) \<and>
          map_of (props (h2 ! e)) (Str ''paramNames'') =
            Some (read h layer (Str ''paramNames'')) \<and>
          map_of (props (h2 ! e)) (Str ''path'') = Some (read h layer (Str ''path'')) \<and>
          (case map_of (props (h2 ! e)) (Str ''regexp'') of
             Some (VStr re) \<Rightarrow> call_toString E (read h layer (Str ''regexp'')) = Inr re
           | _ \<Rightarrow> False) \<and>
          (case map_of (props (h2 ! e)) (Str ''stack'') of
             Some (VRef a) \<Rightarrow>
               a < length h2 \<and>
               h2 ! a =
                 array_object
                   (case property_key E fullpath of
                      Inr k \<Rightarrow> map (handler_name h k) (map snd (props (h ! s)))
                    | Inl err \<Rightarrow> [])
           | _ \<Rightarrow> False)
      | _ \<Rightarrow> False)"

text \<open>
  For the proofs: what the loop leaves at the address \<open>e\<close> of an entry built for a layer
  of the initial store \<open>h\<close>.
\<close>

definition entry_at :: "env \<Rightarrow> heap \<Rightarrow> heap \<Rightarrow> val \<Rightarrow> addr \<Rightarrow> val \<Rightarrow> addr \<Rightarrow> bool" where
  "entry_at E h H2 fullpath r layer e =
     (case entry_values E h fullpath layer of
        Inl err \<Rightarrow> False
      | Inr vs \<Rightarrow>
          e \<noteq> r \<and> Suc e \<noteq> r \<and> Suc e < length H2 \<and> H2 ! e = entry_object e vs \<and>
          H2 ! Suc e = array_object (snd (snd (snd (snd (snd vs))))))"

text \<open>
  A world with a router of two layers. The application (5) has the configuration (8) with
  \<^verbatim>\<open>rundir\<close> \<^verbatim>\<open>/run\<close>, the router (9), whose stack (10) holds the layers 11 and 12,
  and the loader (20), whose \<^verbatim>\<open>FileLoader\<close> (21) has the symbol \<^verbatim>\<open>FULLPATH\<close>. The first
  layer has a handler with a load path (18) and one with a \<^verbatim>\<open>_name\<close> (19); the handlers
  of the second are the function \<^verbatim>\<open>show\<close> and an anonymous function. In the example,
  \<^verbatim>\<open>toString\<close> prints every pattern as \<^verbatim>\<open>/re/\<close>, and the printer standing for
  \<^verbatim>\<open>JSON.stringify\<close> prints, for each element of an array, its path, its pattern and its
  handler identifiers.
\<close>

definition router_store :: heap where
  "router_store =
     [\<lparr>proto = VNull, props = []\<rparr>,
      \<lparr>proto = VRef 0, props = []\<rparr>,
      \<lparr>proto = VRef 0, props = [(Str ''onerror'', VFun ''onerror'')]\<rparr>,
      \<lparr>proto = VRef 0, props = []\<rparr>,
      \<lparr>proto = VRef 0, props = []\<rparr>,
      \<lparr>proto = VRef 0,
       props = [(Str ''context'', VRef 2), (Str ''request'', VRef 3), (Str ''response'', VRef 4),
                (Str ''config'', VRef 8), (Str ''router'', VRef 9), (Str ''loader'', VRef 20)]\<rparr>,
      \<lparr>proto = VRef 0, props = []\<rparr>,
      \<lparr>proto = VRef 0, props = []\<rparr>,
      \<lparr>proto = VRef 0, props = [(Str ''rundir'', VStr ''/run'')]\<rparr>,
      \<lparr>proto = VRef 0, props = [(Str ''stack'', VRef 10)]\<rparr>,
      \<lparr>proto = VRef 1, props = [(Str ''0'', VRef 11), (Str ''1'', VRef 12)]\<rparr>,
      \<lparr>proto = VRef 0,
       props = [(Str ''name'', VStr ''home''), (Str ''methods'', VRef 13),
                (Str ''paramNames'', VRef 14), (Str ''path'', VStr ''/home''),
                (Str ''regexp'', VRef 15), (Str ''stack'', VRef 16)]\<rparr>,
      \<lparr>proto = VRef 0,
       props = [(Str ''name'', VNull), (Str ''methods'', VRef 13),
                (Str ''paramNames'', VRef 14), (Str ''path'', VStr ''/api''),
                (Str ''regexp'', VRef 15), (Str ''stack'', VRef 17)]\<rparr>,
      \<lparr>proto = VRef 1, props = [(Str ''0'', VStr ''GET'')]\<rparr>,
      \<lparr>proto = VRef 1, props = []\<rparr>,
      \<lparr>proto = VRef 0, props = []\<rparr>,
      \<lparr>proto = VRef 1, props = [(Str ''0'', VRef 18), (Str ''1'', VRef 19)]\<rparr>,
      \<lparr>proto = VRef 1, props = [(Str ''0'', VFun ''show''), (Str ''1'', VFun [])]\<rparr>,
      \<lparr>proto = VRef 0,
       props = [(Sym ''EGG_LOADER_ITEM_FULLPATH'', VStr ''/app/controller/home.js''),
                (Str ''name'', VStr ''index'')]\<rparr>,
      \<lparr>proto = VRef 0, props = [(Str ''_name'', VStr ''auth''), (Str ''name'', VStr ''mw'')]\<rparr>,
      \<lparr>proto = VRef 0, props = [(Str ''FileLoader'', VRef 21)]\<rparr>,
      \<lparr>proto = VRef 0, props = [(Str ''FULLPATH'', VSym ''EGG_LOADER_ITEM_FULLPATH'')]\<rparr>]"

definition router_world :: world where
  "router_world = \<lparr>store = router_store, files = [], log = [], listeners = []\<rparr>"

definition example_stringify :: "heap \<Rightarrow> val \<Rightarrow> error + string" where
  "example_stringify h v =
     Inr (concat (map (\<lambda>e.
            (case read h e (Str ''path'') of VStr s \<Rightarrow> s | _ \<Rightarrow> ''?'') @ '' '' @
            (case read h e (Str ''regexp'') of VStr s \<Rightarrow> s | _ \<Rightarrow> ''?'') @
            concat (map (\<lambda>i. case i of VStr s \<Rightarrow> '' '' @ s | _ \<Rightarrow> '' ?'')
                        (elements h (read h e (Str ''stack'')))) @ ''; '')
          (elements h v)))"

definition example_env :: env where
  "example_env =
     \<lparr>path_join = example_join, stringify = example_stringify,
      toString = (\<lambda>v. Inr ''/re/''), fs_fails = (\<lambda>file. None),
      super_dumpConfig = (\<lambda>w. (Inr (), w)), loader_load = (\<lambda>w. (Inr (), w))\<rparr>"

text \<open>The same with a file system that refuses the write.\<close>

definition readonly_env :: env where
  "readonly_env = example_env\<lparr>fs_fails := (\<lambda>file. Some (Error ''EACCES: permission denied''))\<rparr>"

text \<open>The same world with an application that has no loader.\<close>

definition no_loader_world :: world where
  "no_loader_world =
     router_world\<lparr>store := router_store[5 :=
        \<lparr>proto = VRef 0,
         props = [(Str ''context'', VRef 2), (Str ''request'', VRef 3),
                  (Str ''response'', VRef 4), (Str ''config'', VRef 8),
                  (Str ''router'', VRef 9)]\<rparr>]\<rparr>"

section \<open>Events: \<^verbatim>\<open>Application#[BIND_EVENTS]\<close> and the constructor\<close>

text \<open>
  The application inherits \<^verbatim>\<open>on\<close>, \<^verbatim>\<open>once\<close> and \<^verbatim>\<open>emit\<close> from Node's
  \<^verbatim>\<open>EventEmitter\<close>: \<^verbatim>\<open>on\<close> and \<^verbatim>\<open>once\<close> append a listener for an event name;
  \<^verbatim>\<open>emit\<close> calls the listeners registered for the name when it starts, in the order of
  their registration; a listener registered with \<^verbatim>\<open>once\<close> is removed just before it is
  called; an error thrown by a listener leaves \<^verbatim>\<open>emit\<close> at once. An emission carries
  one argument.
\<close>

definition on :: "world \<Rightarrow> string \<Rightarrow> listener \<Rightarrow> world" where
  "on w name f = w\<lparr>listeners := listeners w @ [(name, False, f)]\<rparr>"

definition once :: "world \<Rightarrow> string \<Rightarrow> listener \<Rightarrow> world" where
  "once w name f = w\<lparr>listeners := listeners w @ [(name, True, f)]\<rparr>"

definition removeListener :: "world \<Rightarrow> string \<times> bool \<times> listener \<Rightarrow> world" where
  "removeListener w entry = w\<lparr>listeners := rev (remove1 entry (rev (listeners w)))\<rparr>"

text \<open>
  The listener of \<^verbatim>\<open>cookieLimitExceed\<close>: the logger \<^verbatim>\<open>ctx.coreLogger\<close> and the error
  handed to it. The error is only logged, so it is a value and not an object of the store.
\<close>

definition cookieLimitExceed_error :: "env \<Rightarrow> heap \<Rightarrow> val \<Rightarrow> error + (val \<times> error_object)" where
  "cookieLimitExceed_error E h arg =
     bindE (getV h arg (Str ''name'')) (\<lambda>name.
     bindE (getV h arg (Str ''value'')) (\<lambda>value.
     bindE (getV h arg (Str ''ctx'')) (\<lambda>ctx.
     bindE (template_string E name) (\<lambda>n.
     bindE (getV h value (Str ''length'')) (\<lambda>len.
     bindE (template_string E len) (\<lambda>l.
     bindE (getV h ctx (Str ''coreLogger'')) (\<lambda>logger.
     bindE (getV h logger (Str ''error'')) (\<lambda>f.
     Inr (logger,
          \<lparr>e_message = ''cookie '' @ n @ [CHR 0x27] @ ''s length('' @ l @
                         '') exceed the limit(4093)'',
           e_name = ''CookieLimitExceedError'', e_key = name, e_cookie = value\<rparr>)))))))))"

definition cookieLimitExceed_listener :: "env \<Rightarrow> world \<Rightarrow> val \<Rightarrow> (error + unit) \<times> world" where
  "cookieLimitExceed_listener E w arg =
     (case cookieLimitExceed_error E (store w) arg of
        Inl e \<Rightarrow> (Inl e, w)
      | Inr (logger, err) \<Rightarrow> (Inr (), emit_log [CoreLoggerError logger err] w))"

text \<open>
  \<^verbatim>\<open>onServer(server)\<close>: \<^verbatim>\<open>graceful\<close> is called, then the \<^verbatim>\<open>clientError\<close> listener is
  registered on the server.
\<close>

definition onServer :: "world \<Rightarrow> val \<Rightarrow> (error + unit) \<times> world" where
  "onServer w server =
     (let w1 = emit_log [Graceful server] w in
      case getV (store w1) server (Str ''on'') of
        Inl e \<Rightarrow> (Inl e, w1)
      | Inr f \<Rightarrow> (Inr (), emit_log [ServerOn server ''clientError'' OnClientError] w1))"

text \<open>
  A call of a listener. A listener of other code is taken to return without an effect on
  the world; the \<^verbatim>\<open>clientError\<close> listener gets a second argument, absent here.
\<close>

definition call_listener :: "env \<Rightarrow> world \<Rightarrow> listener \<Rightarrow> val \<Rightarrow> (error + unit) \<times> world" where
  "call_listener E w f arg =
     (case f of
        OnCookieLimitExceed \<Rightarrow> cookieLimitExceed_listener E w arg
      | OnServer \<Rightarrow> onServer w arg
      | OnClientError \<Rightarrow> onClientError w arg VUndefined
      | Other k \<Rightarrow> (Inr (), w))"

fun run_listeners ::
  "env \<Rightarrow> world \<Rightarrow> (string \<times> bool \<times> listener) list \<Rightarrow> val \<Rightarrow> (error + unit) \<times> world" where
  "run_listeners E w [] arg = (Inr (), w)"
| "run_listeners E w ((name, once_only, f) # rest) arg =
     (let w1 = (if once_only then removeListener w (name, once_only, f) else w) in
      case call_listener E w1 f arg of
        (Inl e, w2) \<Rightarrow> (Inl e, w2)
      | (Inr u, w2) \<Rightarrow> run_listeners E w2 rest arg)"

definition emit :: "env \<Rightarrow> world \<Rightarrow> string \<Rightarrow> val \<Rightarrow> (error + unit) \<times> world" where
  "emit E w name arg =
     run_listeners E w (filter (\<lambda>(n, once_only, f). n = name) (listeners w)) arg"

text \<open>A sequence of emissions; an error of one goes to its emitter and the next follows.\<close>

fun emits :: "env \<Rightarrow> world \<Rightarrow> (string \<times> val) list \<Rightarrow> world" where
  "emits E w [] = w"
| "emits E w ((name, arg) # es) = emits E (snd (emit E w name arg)) es"

definition BIND_EVENTS :: "world \<Rightarrow> world" where
  "BIND_EVENTS w =
     once (on w ''cookieLimitExceed'' OnCookieLimitExceed) ''server'' OnServer"

text \<open>
  The constructor, from the world \<^verbatim>\<open>super(options)\<close> leaves: an error of
  \<^verbatim>\<open>this.loader.load()\<close> is thrown again; then the three calls follow.
\<close>

definition constructor :: "env \<Rightarrow> world \<Rightarrow> addr \<Rightarrow> (error + unit) \<times> world" where
  "constructor E w app =
     (case loader_load E w of
        (Inl e, w1) \<Rightarrow> (Inl e, w1)
      | (Inr u, w1) \<Rightarrow>
         (case dumpConfig E w1 app of
            (Inl e, w2) \<Rightarrow> (Inl e, w2)
          | (Inr u, w2) \<Rightarrow>
             (case warnConfusedConfig w2 app of
                (Inl e, w3) \<Rightarrow> (Inl e, w3)
              | (Inr u, w3) \<Rightarrow> (Inr (), BIND_EVENTS w3))))"

text \<open>
  What the two bindings are to do, for comparison with \<^verbatim>\<open>emit\<close>: the lines a sequence
  of emissions adds to the log when the listener of \<^verbatim>\<open>cookieLimitExceed\<close> runs at each
  emission of that name and the listener of \<^verbatim>\<open>server\<close> at the first emission of that
  name only. \<open>served\<close> tells whether \<^verbatim>\<open>server\<close> has been emitted before.
\<close>

fun handler_effects :: "env \<Rightarrow> heap \<Rightarrow> bool \<Rightarrow> (string \<times> val) list \<Rightarrow> event list" where
  "handler_effects E h served [] = []"
| "handler_effects E h served ((name, arg) # es) =
     (if name = ''cookieLimitExceed'' then
        (case cookieLimitExceed_error E h arg of
           Inl e \<Rightarrow> []
         | Inr (logger, err) \<Rightarrow> [CoreLoggerError logger err])
      else if name = ''server'' \<and> \<not> served then
        Graceful arg #
        (if arg = VUndefined \<or> arg = VNull then []
         else [ServerOn arg ''clientError'' OnClientError])
      else []) @
     handler_effects E h (served \<or> name = ''server'') es"

definition is_graceful :: "event \<Rightarrow> bool" where
  "is_graceful ev = (case ev of Graceful s \<Rightarrow> True | _ \<Rightarrow> False)"

definition is_other :: "string \<times> bool \<times> listener \<Rightarrow> bool" where
  "is_other entry = (case snd (snd entry) of Other k \<Rightarrow> True | _ \<Rightarrow> False)"

text \<open>
  For the proofs: the listeners this module has bound, before and after \<^verbatim>\<open>server\<close> has
  been emitted. For the examples: a world with a context (9) whose \<^verbatim>\<open>coreLogger\<close> is the
  logger 10, the payload (11) of a \<^verbatim>\<open>cookieLimitExceed\<close> event for a cookie \<^verbatim>\<open>sid\<close> of
  five characters, a server (12), the loader (13) with its \<^verbatim>\<open>FileLoader\<close> (14), and a
  listener of other code on each of the two events.
\<close>

definition bound_listeners :: "bool \<Rightarrow> (string \<times> bool \<times> listener) list" where
  "bound_listeners served =
     (''cookieLimitExceed'', False, OnCookieLimitExceed) #
     (if served then [] else [(''server'', True, OnServer)])"

definition events_world :: world where
  "events_world =
     \<lparr>store = put (config_store [(Str ''rundir'', VStr ''/run''),
                                  (Str ''confusedConfigurations'', VRef 0)] @
                   [\<lparr>proto = VRef 0, props = [(Str ''coreLogger'', VRef 10)]\<rparr>,
                    \<lparr>proto = VRef 0, props = []\<rparr>,
                    \<lparr>proto = VRef 0,
                     props = [(Str ''name'', VStr ''sid''), (Str ''value'', VStr ''abcde''),
                              (Str ''ctx'', VRef 9)]\<rparr>,
                    \<lparr>proto = VRef 0, props = []\<rparr>,
                    \<lparr>proto = VRef 0, props = [(Str ''FileLoader'', VRef 14)]\<rparr>,
                    \<lparr>proto = VRef 0,
                     props = [(Str ''FULLPATH'', VSym ''EGG_LOADER_ITEM_FULLPATH'')]\<rparr>])
                5 (Str ''loader'') (VRef 13),
      files = [], log = [],
      listeners = [(''server'', True, Other 0), (''cookieLimitExceed'', False, Other 1)]\<rparr>"

section \<open>Facts about the store\<close>

lemma get_append: "a < length h \<Longrightarrow> get (h @ xs) a k = get h a k"
proof (induction h a k rule: get.induct)
  case (1 h a k)
  show ?case
    using 1
    by (subst get.simps, subst (2) get.simps) (auto simp: nth_append split: option.splits val.splits)
qed

lemma length_put [simp]: "length (put h a k v) = length h"
  by (simp add: put_def)

lemma nth_put:
  "put h a k v ! b =
     (if b = a \<and> a < length h then (h ! a)\<lparr>props := AList.update k v (props (h ! a))\<rparr> else h ! b)"
  by (simp add: put_def)

lemma proto_put [simp]: "proto (put h a k v ! b) = proto (h ! b)"
  by (simp add: nth_put)

text \<open>A write to a newer object is invisible from an older one.\<close>

lemma get_put_above: "b < a \<Longrightarrow> get (put h a k v) b k' = get h b k'"
proof (induction h b k' rule: get.induct)
  case (1 h b k')
  show ?case
    using 1
    by (subst get.simps, subst (2) get.simps) (auto simp: put_def split: option.splits val.splits)
qed

lemma get_own: "a < length h \<Longrightarrow> map_of (props (h ! a)) k = Some v \<Longrightarrow> get h a k = v"
  by (subst get.simps) simp

lemma get_derived:
  "b < length h \<Longrightarrow> proto (h ! b) = VRef p \<Longrightarrow> p < b \<Longrightarrow>
     get h b k = (case map_of (props (h ! b)) k of Some v \<Rightarrow> v | None \<Rightarrow> get h p k)"
  by (subst get.simps) (simp split: option.splits)

lemma get_put_same: "a < length h \<Longrightarrow> get (put h a k v) a k = v"
  by (subst get.simps) (simp add: nth_put update_conv')

lemma get_put_other:
  assumes "b \<noteq> a" and "\<And>p. proto (h ! b) = VRef p \<Longrightarrow> p < a"
  shows "get (put h a k v) b k' = get h b k'"
  using assms
  by (subst get.simps, subst (2) get.simps)
     (auto simp: nth_put get_put_above split: option.splits val.splits)

lemma get_new0:
  "get (h @ x # xs) (length h) k =
     (case map_of (props x) k of
        Some v \<Rightarrow> v
      | None \<Rightarrow>
         (case proto x of
            VRef p \<Rightarrow> if p < length h then get h p k else VUndefined
          | _ \<Rightarrow> VUndefined))"
  by (subst get.simps) (auto simp: get_append split: option.splits val.splits)

lemma put_at0:
  "put (h @ x # xs) (length h) k v = h @ x\<lparr>props := AList.update k v (props x)\<rparr> # xs"
  by (simp add: put_def)

lemma put_at1:
  "put (h @ x # y # xs) (Suc (length h)) k v =
     h @ x # y\<lparr>props := AList.update k v (props y)\<rparr> # xs"
  by (simp add: put_def nth_append list_update_append)

lemma put_at2:
  "put (h @ x # y # z # xs) (Suc (Suc (length h))) k v =
     h @ x # y # z\<lparr>props := AList.update k v (props z)\<rparr> # xs"
  by (simp add: put_def nth_append list_update_append)

lemma puts_Nil [simp]: "puts [] h = h"
  by (simp add: puts_def)

lemma puts_Cons [simp]: "puts ((a, k, v) # ws) h = puts ws (put h a k v)"
  by (simp add: puts_def)

lemma length_puts [simp]: "length (puts ws h) = length h"
  by (induction ws arbitrary: h) auto

lemma proto_puts [simp]: "proto (puts ws h ! b) = proto (h ! b)"
  by (induction ws arbitrary: h) auto

lemma get_puts_above:
  "\<forall>(a, k, v) \<in> set ws. b < a \<Longrightarrow> get (puts ws h) b k' = get h b k'"
  by (induction ws arbitrary: h) (auto simp: get_put_above)

lemma own_puts:
  "(a, k) \<notin> written ws \<Longrightarrow> map_of (props (puts ws h ! a)) k = map_of (props (h ! a)) k"
  unfolding written_def
  by (induction ws arbitrary: h) (auto simp: nth_put update_conv' split: if_splits)

section \<open>Facts about \<^verbatim>\<open>createContext\<close>\<close>

text \<open>The three objects \<^verbatim>\<open>createContext\<close> leaves in the store, written out.\<close>

lemma wf_appD:
  assumes "wf_app h app"
  obtains a c r s where "app = VRef a" "a < length h"
    "get h a (Str ''context'') = VRef c" "c < length h" "is_function (get h c (Str ''onerror''))"
    "get h a (Str ''request'') = VRef r" "r < length h"
    "get h a (Str ''response'') = VRef s" "s < length h"
  using assms by (auto simp: wf_app_def split: val.splits)

lemma getV_Ref: "getV h (VRef a) k = Inr (get h a k)"
  by (simp add: getV_def read_def)

lemma Object_create_Ref:
  "Object_create h (VRef p) = Inr (h @ [\<lparr>proto = VRef p, props = []\<rparr>], length h)"
  by (simp add: Object_create_def alloc_def)

lemma js_bind_function: "is_function g \<Longrightarrow> js_bind g t = Inr (VBound g t)"
  by (auto simp: js_bind_def is_function_def split: val.splits)

lemma read_valid_append: "valid h v \<Longrightarrow> read (h @ xs) v k = read h v k"
  by (auto simp: read_def valid_def get_append split: val.splits)

lemma getV_valid_append: "valid h v \<Longrightarrow> getV (h @ xs) v k = getV h v k"
  by (auto simp: getV_def read_valid_append split: val.splits)

lemma createContext_result:
  assumes app: "app = VRef a" "a < length h"
    and ctx: "get h a (Str ''context'') = VRef c" "c < length h"
    and f: "is_function (get h c (Str ''onerror''))"
    and rq: "get h a (Str ''request'') = VRef r"
    and rs: "get h a (Str ''response'') = VRef s"
    and req: "getV h req (Str ''url'') = Inr url" "valid h req"
  shows "createContext h app req res now =
           Inr (h @ [contextObj (length h) (VRef c) app req res
                       (VBound (get h c (Str ''onerror'')) (VRef (length h))) url now,
                     requestObj (length h) (VRef r) app req res url,
                     responseObj (length h) (VRef s) app req res],
                length h)"
proof -
  have gv: "\<And>xs. getV (h @ xs) req (Str ''url'') = Inr url"
    using req by (simp add: getV_valid_append)
  show ?thesis
    unfolding createContext_def
    using app ctx rq rs
    by (simp add: bindE_def getV_Ref Object_create_Ref get_append Let_def
         put_at0 put_at1 [simplified] put_at2 [simplified] get_new0 js_bind_function f
         gv [simplified] contextObj_def requestObj_def responseObj_def)
qed

lemma req_url:
  assumes "req \<noteq> VNull" "req \<noteq> VUndefined"
  obtains url where "getV h req (Str ''url'') = Inr url"
  using assms by (cases req) (auto simp: getV_def)

lemma createContext_wf:
  assumes wf: "wf_app h app" and req: "valid h req" "req \<noteq> VNull" "req \<noteq> VUndefined"
  obtains a c r s url where
    "app = VRef a" "a < length h"
    "get h a (Str ''context'') = VRef c" "c < length h"
    "is_function (get h c (Str ''onerror''))"
    "get h a (Str ''request'') = VRef r" "r < length h"
    "get h a (Str ''response'') = VRef s" "s < length h"
    "getV h req (Str ''url'') = Inr url"
    "createContext h app req res now =
       Inr (h @ [contextObj (length h) (VRef c) app req res
                   (VBound (get h c (Str ''onerror'')) (VRef (length h))) url now,
                 requestObj (length h) (VRef r) app req res url,
                 responseObj (length h) (VRef s) app req res],
            length h)"
proof -
  from wf obtain a c r s where w: "app = VRef a" "a < length h"
    "get h a (Str ''context'') = VRef c" "c < length h" "is_function (get h c (Str ''onerror''))"
    "get h a (Str ''request'') = VRef r" "r < length h"
    "get h a (Str ''response'') = VRef s" "s < length h"
    by (rule wf_appD)
  from req(2,3) obtain url where u: "getV h req (Str ''url'') = Inr url"
    by (rule req_url[of req h])
  have "createContext h app req res now =
       Inr (h @ [contextObj (length h) (VRef c) app req res
                   (VBound (get h c (Str ''onerror'')) (VRef (length h))) url now,
                 requestObj (length h) (VRef r) app req res url,
                 responseObj (length h) (VRef s) app req res],
            length h)"
    using w u req(1) by (intro createContext_result) simp_all
  with w u show ?thesis using that by simp
qed

text \<open>With a \<^verbatim>\<open>null\<close> or \<^verbatim>\<open>undefined\<close> request, \<^verbatim>\<open>req.url\<close> throws.\<close>

lemma createContext_null:
  assumes "wf_app h app" and "req = VNull \<or> req = VUndefined"
  shows "\<exists>e. createContext h app req res now = Inl e"
proof -
  from assms(1) obtain a c r s where w: "app = VRef a" "a < length h"
    "get h a (Str ''context'') = VRef c" "c < length h" "is_function (get h c (Str ''onerror''))"
    "get h a (Str ''request'') = VRef r" "r < length h"
    "get h a (Str ''response'') = VRef s" "s < length h"
    by (rule wf_appD)
  have gv: "\<And>h k. getV h VNull k = Inl (TypeError ''Cannot read properties of null'')"
    "\<And>h k. getV h VUndefined k = Inl (TypeError ''Cannot read properties of undefined'')"
    by (simp_all add: getV_def)
  show ?thesis
    unfolding createContext_def
    using w assms(2)
    by (auto simp add: gv bindE_def getV_Ref Object_create_Ref get_append Let_def
         put_at0 put_at1 [simplified] put_at2 [simplified] get_new0 js_bind_function)
qed

lemma facet_of_new:
  assumes "map_of (props co) (Str ''request'') = Some (VRef (Suc (length H)))"
    and "map_of (props co) (Str ''response'') = Some (VRef (Suc (Suc (length H))))"
  shows "facet_of (H @ [co, ro, so]) (length H) Context = VRef (length H)"
    and "facet_of (H @ [co, ro, so]) (length H) Request = VRef (Suc (length H))"
    and "facet_of (H @ [co, ro, so]) (length H) Response = VRef (Suc (Suc (length H)))"
proof -
  show "facet_of (H @ [co, ro, so]) (length H) Context = VRef (length H)" by simp
  show "facet_of (H @ [co, ro, so]) (length H) Request = VRef (Suc (length H))"
    using assms(1) by (simp add: get_own)
  show "facet_of (H @ [co, ro, so]) (length H) Response = VRef (Suc (Suc (length H)))"
    using assms(2) by (simp add: get_own)
qed

lemma contextObj_facets:
  "map_of (props (contextObj n pc app req res oe url now)) (Str ''request'') = Some (VRef (Suc n))"
  "map_of (props (contextObj n pc app req res oe url now)) (Str ''response'') = Some (VRef (Suc (Suc n)))"
  by (simp_all add: contextObj_def)

lemma wf_app_puts:
  assumes "wf_app h app" and "\<forall>(a, k, v) \<in> set ws. length h \<le> a"
  shows "wf_app (puts ws (h @ xs)) app"
proof -
  have g: "\<And>b k. b < length h \<Longrightarrow> get (puts ws (h @ xs)) b k = get h b k"
  proof -
    fix b k assume b: "b < length h"
    have "get (puts ws (h @ xs)) b k = get (h @ xs) b k"
      using assms(2) b by (intro get_puts_above) auto
    then show "get (puts ws (h @ xs)) b k = get h b k"
      using b by (simp add: get_append)
  qed
  from assms(1) obtain a c r s where w: "app = VRef a" "a < length h"
    "get h a (Str ''context'') = VRef c" "c < length h" "is_function (get h c (Str ''onerror''))"
    "get h a (Str ''request'') = VRef r" "r < length h"
    "get h a (Str ''response'') = VRef s" "s < length h"
    by (rule wf_appD)
  then show ?thesis
    by (simp add: wf_app_def g)
qed

text \<open>
  Two objects derived from the same older prototype: a write to either is seen on it and
  not on the other, and a key neither has of its own reads the prototype's value.
\<close>

lemma isolation_core:
  assumes "a < b" "b < length H" "proto (H ! a) = VRef p" "proto (H ! b) = VRef p" "p < a"
  shows "get (put H a k v) a k = v"
    and "get (put H a k v) b k' = get H b k'"
    and "get (put H b k v) b k = v"
    and "get (put H b k v) a k' = get H a k'"
    and "map_of (props (H ! a)) k = None \<Longrightarrow> get H a k = get H p k"
    and "map_of (props (H ! b)) k = None \<Longrightarrow> get H b k = get H p k"
proof -
  show "get (put H a k v) a k = v" using assms by (intro get_put_same) simp
  show "get (put H a k v) b k' = get H b k'" using assms by (intro get_put_other) auto
  show "get (put H b k v) b k = v" using assms by (intro get_put_same) simp
  show "get (put H b k v) a k' = get H a k'" using assms by (intro get_put_above) simp
  show "map_of (props (H ! a)) k = None \<Longrightarrow> get H a k = get H p k"
    using assms by (subst get_derived[of a H p]) auto
  show "map_of (props (H ! b)) k = None \<Longrightarrow> get H b k = get H p k"
    using assms by (subst get_derived[of b H p]) auto
qed

lemma isolated_pair:
  assumes "a < b" "b < length H" "proto (H ! a) = VRef p" "proto (H ! b) = VRef p" "p < a"
    and oB: "\<And>k. k \<notin> set ks \<Longrightarrow> map_of (props (H ! b)) k = None"
    and oA: "\<And>k. k \<notin> set ks \<Longrightarrow> (a, k) \<notin> W \<Longrightarrow> map_of (props (H ! a)) k = None"
  shows "a \<noteq> b \<and>
         (\<forall>k k' v.
            get (put H a k v) a k = v \<and> get (put H a k v) b k' = get H b k' \<and>
            get (put H b k v) b k = v \<and> get (put H b k v) a k' = get H a k') \<and>
         (\<forall>k. k \<notin> set ks \<longrightarrow>
            get H b k = get H p k \<and> ((a, k) \<notin> W \<longrightarrow> get H a k = get H p k))"
  using assms(1) isolation_core[OF assms(1-5)] oA oB by auto

text \<open>The example store, and the context \<^verbatim>\<open>createContext\<close> builds on it.\<close>

lemma example_store_length: "length example_store = 8"
  by (simp add: example_store_def)

lemma example_store_get:
  "get example_store 5 (Str ''context'') = VRef 2"
  "get example_store 5 (Str ''request'') = VRef 3"
  "get example_store 5 (Str ''response'') = VRef 4"
  "get example_store 2 (Str ''onerror'') = VFun ''onerror''"
  "get example_store 6 (Str ''url'') = VStr ''/home''"
  by (simp_all add: example_store_def get.simps)

lemma example_store_wf: "wf_app example_store (VRef 5)"
  by (simp add: wf_app_def example_store_get example_store_length is_function_def)

lemma example_store_createContext:
  "createContext example_store (VRef 5) (VRef 6) (VRef 7) now =
     Inr (example_store @
       [contextObj 8 (VRef 2) (VRef 5) (VRef 6) (VRef 7)
          (VBound (VFun ''onerror'') (VRef 8)) (VStr ''/home'') now,
        requestObj 8 (VRef 3) (VRef 5) (VRef 6) (VRef 7) (VStr ''/home''),
        responseObj 8 (VRef 4) (VRef 5) (VRef 6) (VRef 7)], 8)"
  using createContext_result[of "VRef 5" 5 example_store 2 3 4 "VRef 6" "VStr ''/home''" "VRef 7" now]
  by (simp add: example_store_length example_store_get is_function_def valid_def getV_Ref)

section \<open>Facts about \<^verbatim>\<open>createAnonymousContext\<close>\<close>

lemma closed_get: "closed h \<Longrightarrow> valid h (get h a k)"
proof (induction h a k rule: get.induct)
  case (1 h a k)
  show ?case
  proof (cases "a < length h")
    case False
    then show ?thesis by (subst get.simps) (simp add: valid_def)
  next
    case True
    show ?thesis
    proof (cases "map_of (props (h ! a)) k")
      case (Some v)
      then have "(k, v) \<in> set (props (h ! a))" by (rule map_of_SomeD)
      with True 1(2) have "valid h v" by (auto simp: closed_def)
      with True Some show ?thesis by (subst get.simps) simp
    next
      case None
      show ?thesis
        using True None 1
        by (subst get.simps) (auto simp: valid_def split: val.splits)
    qed
  qed
qed

lemma valid_str_prop: "valid h (str_prop s k)"
  by (auto simp: str_prop_def valid_def split: key.splits option.splits)

lemma closed_read: "closed h \<Longrightarrow> valid h (read h v k)"
  by (cases v) (auto simp: read_def closed_get valid_str_prop, auto simp: valid_def fun_prop_def)

lemma take_put: "n \<le> a \<Longrightarrow> take n (put H a k v) = take n H"
  by (simp add: put_def)


lemma prefixD: "take (length h) H = h \<Longrightarrow> H = h @ drop (length h) H"
  by (metis append_take_drop_id)

lemma read_prefix: "take (length h) H = h \<Longrightarrow> valid h v \<Longrightarrow> read H v k = read h v k"
  using read_valid_append[of h v "drop (length h) H" k] prefixD[of h H] by simp







lemma getV_read: "v \<noteq> VNull \<Longrightarrow> v \<noteq> VUndefined \<Longrightarrow> getV h v k = Inr (read h v k)"
  by (cases v) (simp_all add: getV_def)



lemma own_puts': "(a, k) \<notin> written ws \<Longrightarrow> own (puts ws h) a k = own h a k"
  by (simp add: own_def own_puts)



lemma own_put_same: "a < length H \<Longrightarrow> own (put H a k v) a k = Some v"
  by (simp add: own_def nth_put update_conv')

















lemma get_own': "a < length h \<Longrightarrow> own h a k = Some v \<Longrightarrow> get h a k = v"
  by (simp add: own_def get_own)





section \<open>Facts about \<^verbatim>\<open>locals\<close>\<close>

lemma own_put_other: "(a, k) \<noteq> (b, k') \<Longrightarrow> own (put h b k' v) a k = own h a k"
  by (auto simp: own_def nth_put update_conv')


lemma set_uniq [simp]: "set (uniq xs) = set xs"
  by (simp add: uniq_def)















lemma nth_puts_other: "\<forall>(a, k, v) \<in> set ws. a \<noteq> c \<Longrightarrow> puts ws H ! c = H ! c"
  by (induction ws arbitrary: H) (auto simp: nth_put)



section \<open>Facts about the bad-request response\<close>

lemma utf8_Cons:
  "\<not> (55296 \<le> c \<and> c < 56320) \<Longrightarrow> utf8 (c # cs) = utf8_unit c @ utf8 cs"
  by (cases cs) auto

lemma utf8_ascii_append: "\<forall>c \<in> set xs. c < 128 \<Longrightarrow> utf8 (xs @ ys) = xs @ utf8 ys"
  by (induction xs) (auto simp: utf8_Cons utf8_unit_def)

lemma units_ascii_digit: "d < 10 \<Longrightarrow> of_char (digit d) < (128 :: nat)"
proof -
  assume "d < 10"
  then have "digit d \<in> set ''0123456789''"
    unfolding digit_def by (intro nth_mem) simp
  then show ?thesis by auto
qed

lemma show_nat_ascii: "\<forall>c \<in> set (units (show_nat n)). c < 128"
proof (induction n rule: show_nat.induct)
  case (1 n)
  show ?case
  proof (cases "n < 10")
    case True
    then show ?thesis
      by (subst show_nat.simps) (simp add: units_def units_ascii_digit)
  next
    case False
    have "n mod 10 < 10" by simp
    then have "of_char (digit (n mod 10)) < (128 :: nat)" by (rule units_ascii_digit)
    then show ?thesis
      using False 1 by (subst show_nat.simps) (auto simp: units_def)
  qed
qed

lemma html_bytes: "byteLength DEFAULT_BAD_REQUEST_HTML = 168"
  by (simp add: byteLength_def DEFAULT_BAD_REQUEST_HTML_def utf8_ascii_append units_def
        utf8_Cons utf8_unit_def)

lemma show_168: "show_nat 168 = ''168''"
  by (simp add: show_nat.simps digit_def)

section \<open>Facts about the configuration accessors\<close>

lemma store_emit_log [simp]: "store (emit_log es w) = store w"
  by (simp add: emit_log_def)


lemma emit_log_Nil [simp]: "emit_log [] w = w"
  by (simp add: emit_log_def)




lemma get_puts_own:
  assumes "own H a k = Some v" and "a < length H" and "(a, k) \<notin> written ws"
  shows "get (puts ws H) a k = v"
proof -
  have "own (puts ws H) a k = Some v" using assms(1,3) by (simp add: own_puts')
  then show ?thesis using assms(2) by (intro get_own') simp_all
qed

lemma keys_get_cached:
  "truthy (get (store w) app KEYS) \<Longrightarrow> keys_get join w app = (Inr (get (store w) app KEYS), w)"
  by (simp add: keys_get_def)

lemma keys_get_compute:
  assumes app: "app < length (store w)"
    and cfg: "get (store w) app (Str ''config'') = VRef c"
    and fresh: "\<not> truthy (get (store w) app KEYS)"
    and ks: "get (store w) c (Str ''keys'') = VStr s" "s \<noteq> []"
  defines "vs \<equiv> map (\<lambda>x. VStr (trim x)) (split_on CHR '','' s)"
  defines "arr \<equiv> length (store w)"
  defines "h2 \<equiv> put (fst (new_array (store w) vs)) app KEYS (VRef arr)"
  shows "keys_get join w app = (Inr (VRef arr), w\<lparr>store := h2\<rparr>)"
    and "own h2 app KEYS = Some (VRef arr)"
    and "length h2 = Suc arr"
    and "is_array h2 (VRef arr)"
    and "elements h2 (VRef arr) = vs"
proof -
  have l: "length h2 = Suc arr"
    by (simp add: h2_def new_array_def alloc_def arr_def)
  have o: "own h2 app KEYS = Some (VRef arr)"
    unfolding h2_def using app by (intro own_put_same) (simp add: new_array_def alloc_def)
  have g: "get h2 app KEYS = VRef arr"
    using o app l by (intro get_own') (simp_all add: arr_def)
  have n: "h2 ! arr =
             \<lparr>proto = Array_prototype,
              props = zip (map (\<lambda>i. Str (show_nat i)) [0..<length vs]) vs\<rparr>"
    using app by (simp add: h2_def new_array_def alloc_def nth_put arr_def)
  show "keys_get join w app = (Inr (VRef arr), w\<lparr>store := h2\<rparr>)"
    using fresh cfg ks g
    by (simp add: keys_get_def getV_Ref h2_def vs_def arr_def new_array_def alloc_def Let_def)
  show "own h2 app KEYS = Some (VRef arr)" by (rule o)
  show "length h2 = Suc arr" by (rule l)
  show "is_array h2 (VRef arr)" by (simp add: is_array_def l n)
  show "elements h2 (VRef arr) = vs" by (simp add: elements_def n)
qed

lemma config_store_facts:
  "length (config_store cfg) = 9"
  "get (config_store cfg) 5 (Str ''config'') = VRef 8"
  "get (config_store cfg) 5 KEYS = VUndefined"
  "get (config_store cfg) 8 k = (case map_of cfg k of Some v \<Rightarrow> v | None \<Rightarrow> VUndefined)"
  by (simp_all add: config_store_def example_store_def put_def get.simps KEYS_def
        split: option.splits)

section \<open>Facts about \<^verbatim>\<open>dumpConfig\<close>\<close>

lemma digit_inj: "m < 10 \<Longrightarrow> n < 10 \<Longrightarrow> digit m = digit n \<Longrightarrow> m = n"
proof -
  assume m: "m < 10" and n: "n < 10" and e: "digit m = digit n"
  have d: "distinct ''0123456789''" by simp
  have l: "length ''0123456789'' = 10" by simp
  from m n e d l show ?thesis
    unfolding digit_def by (metis nth_eq_iff_index_eq)
qed

lemma show_nat_nonempty: "show_nat n \<noteq> []"
  by (subst show_nat.simps) simp

lemma show_nat_inj: "show_nat m = show_nat n \<Longrightarrow> m = n"
proof (induction m arbitrary: n rule: show_nat.induct)
  case (1 m)
  show ?case
  proof (cases "m < 10")
    case True
    with "1.prems" have a: "[digit m] = show_nat n" by (subst (asm) show_nat.simps) simp
    show ?thesis
    proof (cases "n < 10")
      case True
      with a have "digit m = digit n" by (subst (asm) show_nat.simps) simp
      with \<open>m < 10\<close> True show ?thesis by (rule digit_inj[rotated 2, rotated])
    next
      case False
      with a have "[digit m] = show_nat (n div 10) @ [digit (n mod 10)]"
        by (subst (asm) show_nat.simps) simp
      then show ?thesis using show_nat_nonempty[of "n div 10"] by simp
    qed
  next
    case False
    with "1.prems" have a: "show_nat (m div 10) @ [digit (m mod 10)] = show_nat n"
      by (subst (asm) show_nat.simps) simp
    show ?thesis
    proof (cases "n < 10")
      case True
      with a have "show_nat (m div 10) @ [digit (m mod 10)] = [digit n]"
        by (subst (asm) (2) show_nat.simps) simp
      then show ?thesis using show_nat_nonempty[of "m div 10"] by simp
    next
      case n: False
      with a have "show_nat (m div 10) @ [digit (m mod 10)] = show_nat (n div 10) @ [digit (n mod 10)]"
        by (subst (asm) (2) show_nat.simps) simp
      then have b: "show_nat (m div 10) = show_nat (n div 10)" and c: "digit (m mod 10) = digit (n mod 10)"
        by simp_all
      from "1.IH"[OF False b] have "m div 10 = n div 10" .
      moreover from c have "m mod 10 = n mod 10" by (intro digit_inj) simp_all
      ultimately show ?thesis by (metis div_mult_mod_eq)
    qed
  qed
qed

lemma nth_prefix: "take n H = h \<Longrightarrow> a < length h \<Longrightarrow> H ! a = h ! a"
  by (metis length_take min_less_iff_conj nth_take)

lemma getV_prefix: "take (length h) H = h \<Longrightarrow> valid h v \<Longrightarrow> getV H v k = getV h v k"
  by (cases v) (simp_all add: getV_def read_prefix)

lemma is_array_prefix:
  assumes "take (length h) H = h" and "valid h v"
  shows "is_array H v = is_array h v"
proof (cases v)
  case (VRef a)
  with assms have a: "a < length h" by (simp add: valid_def)
  from assms(1) have "length (take (length h) H) = length h" by simp
  then have "length h \<le> length H" by simp
  with a have "a < length H" by simp
  with a VRef nth_prefix[OF assms(1) a] show ?thesis by (simp add: is_array_def)
qed (simp_all add: is_array_def)

lemma elements_prefix:
  assumes "take (length h) H = h" and "valid h v"
  shows "elements H v = elements h v"
proof (cases v)
  case (VRef a)
  with assms have a: "a < length h" by (simp add: valid_def)
  with VRef nth_prefix[OF assms(1) a] show ?thesis by (simp add: elements_def)
qed (simp_all add: elements_def)

lemma array_elements_prefix:
  "take (length h) H = h \<Longrightarrow> valid h v \<Longrightarrow> array_elements H v = array_elements h v"
  by (cases v) (simp_all add: array_elements_def is_array_prefix elements_prefix)

lemma handler_id_prefix:
  assumes "take (length h) H = h" and "valid h f"
  shows "handler_id E H fp f = handler_id E h fp f"
proof -
  have "\<And>k. read H f k = read h f k" using assms by (rule read_prefix)
  then show ?thesis by (simp only: handler_id_def)
qed

lemma map_ids_prefix:
  "take (length h) H = h \<Longrightarrow> \<forall>f \<in> set fs. valid h f \<Longrightarrow> map_ids E H fp fs = map_ids E h fp fs"
  by (induction fs) (simp_all add: handler_id_prefix)

lemma closed_elements:
  assumes "closed h" and "is_array h v"
  shows "\<forall>x \<in> set (elements h v). valid h x"
proof (cases v)
  case (VRef a)
  with assms(2) have a: "a < length h" by (simp add: is_array_def)
  then have "h ! a \<in> set h" by simp
  with assms(1) have "\<forall>(k, x) \<in> set (props (h ! a)). valid h x" unfolding closed_def by blast
  with VRef show ?thesis by (auto simp: elements_def)
qed (simp_all add: elements_def)

lemma array_elements_valid:
  "closed h \<Longrightarrow> array_elements h v = Inr xs \<Longrightarrow> \<forall>x \<in> set xs. valid h x"
  using closed_elements[of h v]
  by (auto simp: array_elements_def split: val.splits if_splits)

lemma entry_values_prefix:
  assumes p: "take (length h) H = h" and c: "closed h" and v: "valid h layer"
  shows "entry_values E H fp layer = entry_values E h fp layer"
proof (cases "layer = VNull \<or> layer = VUndefined")
  case True
  then show ?thesis by (auto simp: entry_values_def getV_def bindE_def)
next
  case False
  have s: "valid h (read h layer (Str ''stack''))" using c by (rule closed_read)
  have g: "\<And>k. getV H layer k = Inr (read h layer k)" "\<And>k. getV h layer k = Inr (read h layer k)"
    using False by (simp_all add: getV_prefix[OF p v] getV_read)
  show ?thesis
  proof (cases "array_elements h (read h layer (Str ''stack''))")
    case (Inl e)
    then show ?thesis
      by (simp add: entry_values_def g bindE_def array_elements_prefix[OF p s] split: sum.splits)
  next
    case (Inr fs)
    with c have "\<forall>f \<in> set fs. valid h f" by (simp add: array_elements_valid)
    with Inr show ?thesis
      by (simp add: entry_values_def g bindE_def array_elements_prefix[OF p s] map_ids_prefix[OF p]
          split: sum.splits)
  qed
qed

lemma handler_id_name:
  assumes "handler_id E h fp f = Inr i"
  shows "\<exists>k. property_key E fp = Inr k \<and> i = handler_name h k f"
proof (cases "f = VNull \<or> f = VUndefined")
  case True
  with assms show ?thesis by (auto simp: handler_id_def)
next
  case False
  with assms have a: "bindE (property_key E fp) (\<lambda>k. Inr (handler_name h k f)) = Inr i"
    by (cases f) (simp_all add: handler_id_def handler_name_def if_distrib[of Inr, symmetric] cong: if_cong)
  then show ?thesis by (cases "property_key E fp") (auto simp: bindE_def)
qed

lemma map_ids_names:
  "map_ids E h fp fs = Inr ids \<Longrightarrow>
     ids = (case property_key E fp of Inr k \<Rightarrow> map (handler_name h k) fs | Inl err \<Rightarrow> [])"
proof (induction fs arbitrary: ids)
  case Nil
  then show ?case by (simp split: sum.splits)
next
  case (Cons f fs)
  from Cons.prems obtain i js where i: "handler_id E h fp f = Inr i"
    and js: "map_ids E h fp fs = Inr js" and ids: "ids = i # js"
    by (auto simp: bindE_def split: sum.splits)
  from handler_id_name[OF i] obtain k where k: "property_key E fp = Inr k" "i = handler_name h k f"
    by blast
  from Cons.IH[OF js] k ids show ?case by simp
qed

lemma entry_values_result:
  assumes "entry_values E h fp layer = Inr (name, methods, paramNames, path, re, ids)"
  shows "name = read h layer (Str ''name'')"
    and "methods = read h layer (Str ''methods'')"
    and "paramNames = read h layer (Str ''paramNames'')"
    and "path = read h layer (Str ''path'')"
    and "call_toString E (read h layer (Str ''regexp'')) = Inr re"
    and "is_array h (read h layer (Str ''stack''))"
    and "ids = (case property_key E fp of
                  Inr k \<Rightarrow> map (handler_name h k) (elements h (read h layer (Str ''stack'')))
                | Inl err \<Rightarrow> [])"
proof -
  from assms have n: "layer \<noteq> VNull" "layer \<noteq> VUndefined"
    by (auto simp: entry_values_def getV_def bindE_def)
  note g = getV_read[OF n]
  from assms obtain fs where
    a: "call_toString E (read h layer (Str ''regexp'')) = Inr re"
    and b: "array_elements h (read h layer (Str ''stack'')) = Inr fs"
    and c: "map_ids E h fp fs = Inr ids"
    and d: "name = read h layer (Str ''name'')" "methods = read h layer (Str ''methods'')"
      "paramNames = read h layer (Str ''paramNames'')" "path = read h layer (Str ''path'')"
    by (auto simp: entry_values_def g bindE_def split: sum.splits)
  from b have e: "is_array h (read h layer (Str ''stack''))"
    and f: "fs = elements h (read h layer (Str ''stack''))"
    by (auto simp: array_elements_def split: val.splits if_splits)
  from d show "name = read h layer (Str ''name'')" "methods = read h layer (Str ''methods'')"
    "paramNames = read h layer (Str ''paramNames'')" "path = read h layer (Str ''path'')" by simp_all
  from a show "call_toString E (read h layer (Str ''regexp'')) = Inr re" .
  from e show "is_array h (read h layer (Str ''stack''))" .
  show "ids = (case property_key E fp of
                  Inr k \<Rightarrow> map (handler_name h k) (elements h (read h layer (Str ''stack'')))
                | Inl err \<Rightarrow> [])"
    unfolding f[symmetric] by (rule map_ids_names[OF c])
qed

lemma update_fresh: "k \<notin> fst ` set ps \<Longrightarrow> AList.update k v ps = ps @ [(k, v)]"
  by (induction ps) auto

lemma index_key_fresh: "Str (show_nat i) \<notin> set (map (\<lambda>j. Str (show_nat j)) [0..<i])"
  by (auto dest: show_nat_inj)

lemma new_array_object: "new_array h vs = (h @ [array_object vs], length h)"
  by (simp add: new_array_def array_object_def alloc_def)

lemma router_entry_result:
  assumes "take (length h) H = h" and "closed h" and "valid h l"
    and "router_entry E H fp l = Inr (H1, e)"
  obtains vs where "entry_values E h fp l = Inr vs" and "e = length H"
    and "H1 = H @ [entry_object (length H) vs, array_object (snd (snd (snd (snd (snd vs)))))]"
proof (cases "entry_values E h fp l")
  case (Inl err)
  with assms show ?thesis
    by (simp add: router_entry_def entry_values_prefix bindE_def)
next
  case (Inr vs)
  with assms have "e = length H"
    and "H1 = H @ [entry_object (length H) vs, array_object (snd (snd (snd (snd (snd vs)))))]"
    by (auto simp: router_entry_def entry_values_prefix bindE_def new_array_object Let_def)
  with Inr that show ?thesis by blast
qed

lemma build_routers_inv:
  assumes "build_routers E H fp r i layers = Inr H2"
    and "take (length h) H = h" and "closed h" and "\<forall>l \<in> set layers. valid h l"
    and "length h \<le> r" and "r < length H"
    and "map fst (props (H ! r)) = map (\<lambda>j. Str (show_nat j)) [0..<i]"
  shows "\<exists>es. length H \<le> length H2 \<and> (\<forall>a<length H. a \<noteq> r \<longrightarrow> H2 ! a = H ! a) \<and>
           proto (H2 ! r) = proto (H ! r) \<and>
           map snd (props (H2 ! r)) = map snd (props (H ! r)) @ map VRef es \<and>
           list_all2 (entry_at E h H2 fp r) layers es"
  using assms
proof (induction layers arbitrary: H i)
  case Nil
  then show ?case by simp
next
  case (Cons l layers)
  from Cons.prems(1) obtain H1 e where re: "router_entry E H fp l = Inr (H1, e)"
    and rest: "build_routers E (put H1 r (Str (show_nat i)) (VRef e)) fp r (Suc i) layers = Inr H2"
    by (auto simp: bindE_def split: sum.splits)
  from Cons.prems(4) have vl: "valid h l" and vls: "\<forall>l \<in> set layers. valid h l" by simp_all
  from router_entry_result[OF Cons.prems(2,3) vl re] obtain vs where vs: "entry_values E h fp l = Inr vs"
    and e: "e = length H"
    and H1: "H1 = H @ [entry_object (length H) vs, array_object (snd (snd (snd (snd (snd vs)))))]"
    by blast
  define H' where "H' = put H1 r (Str (show_nat i)) (VRef e)"
  have len: "length H' = length H + 2" by (simp add: H'_def H1)
  have r1: "r < length H1" using Cons.prems(6) by (simp add: H1)
  have H1r: "H1 ! r = H ! r" using Cons.prems(6) by (simp add: H1 nth_append)
  have fresh: "Str (show_nat i) \<notin> fst ` set (props (H ! r))"
    using index_key_fresh[of i] Cons.prems(7) by (metis set_map)
  have pr: "props (H' ! r) = props (H ! r) @ [(Str (show_nat i), VRef e)]"
    using r1 fresh by (simp add: H'_def nth_put H1r update_fresh)
  have other: "\<And>a. a \<noteq> r \<Longrightarrow> H' ! a = H1 ! a" by (simp add: H'_def nth_put)
  have t: "take (length h) H' = h"
    using Cons.prems(2,5,6) by (simp add: H'_def take_put H1)
  have k: "map fst (props (H' ! r)) = map (\<lambda>j. Str (show_nat j)) [0..<Suc i]"
    using Cons.prems(7) by (simp add: pr)
  have r': "r < length H'" using Cons.prems(6) by (simp add: len)
  from Cons.IH[OF rest[folded H'_def] t Cons.prems(3) vls Cons.prems(5) r' k]
  obtain es where a: "length H' \<le> length H2"
    and b: "\<forall>a<length H'. a \<noteq> r \<longrightarrow> H2 ! a = H' ! a"
    and c: "proto (H2 ! r) = proto (H' ! r)"
    and d: "map snd (props (H2 ! r)) = map snd (props (H' ! r)) @ map VRef es"
    and f: "list_all2 (entry_at E h H2 fp r) layers es"
    by blast
  have er: "e \<noteq> r" "Suc e \<noteq> r" using Cons.prems(6) e by simp_all
  have "H2 ! e = H' ! e" using b er len e by simp
  then have He: "H2 ! e = entry_object e vs" using other[OF er(1)] by (simp add: H1 e)
  have "H2 ! Suc e = H' ! Suc e" using b er len e by simp
  then have Hs: "H2 ! Suc e = array_object (snd (snd (snd (snd (snd vs)))))"
    using other[OF er(2)] by (simp add: H1 e nth_append)
  have ent: "entry_at E h H2 fp r l e"
    using vs er He Hs a len e by (simp add: entry_at_def)
  have 1: "length H \<le> length H2" using a len by simp
  have 2: "\<forall>a<length H. a \<noteq> r \<longrightarrow> H2 ! a = H ! a"
  proof (intro allI impI)
    fix a assume "a < length H" and "a \<noteq> r"
    then show "H2 ! a = H ! a" using b other[of a] len by (simp add: H1 nth_append)
  qed
  have 3: "proto (H2 ! r) = proto (H ! r)" using c by (simp add: H'_def H1r)
  have 4: "map snd (props (H2 ! r)) = map snd (props (H ! r)) @ map VRef (e # es)"
    using d by (simp add: pr)
  have 5: "list_all2 (entry_at E h H2 fp r) (l # layers) (e # es)" using ent f by simp
  from 1 2 3 4 5 show ?case by blast
qed

lemma entry_at_snapshot:
  assumes "entry_at E h H2 fp r l e"
  shows "snapshot_of E h H2 fp l (VRef e)"
proof -
  from assms obtain name methods paramNames path re ids where
    vs: "entry_values E h fp l = Inr (name, methods, paramNames, path, re, ids)"
    and lt: "Suc e < length H2"
    and He: "H2 ! e = entry_object e (name, methods, paramNames, path, re, ids)"
    and Hs: "H2 ! Suc e = array_object ids"
    by (cases "entry_values E h fp l") (auto simp: entry_at_def)
  note r = entry_values_result[OF vs]
  from r(6) obtain s where s: "read h l (Str ''stack'') = VRef s" "s < length h"
    "proto (h ! s) = Array_prototype"
    by (cases "read h l (Str ''stack'')") (auto simp: is_array_def)
  have el: "elements h (VRef s) = map snd (props (h ! s))" by (simp add: elements_def)
  from lt have e: "e < length H2" by simp
  have p: "props (H2 ! e) = [(Str ''name'', name), (Str ''methods'', methods),
                  (Str ''paramNames'', paramNames), (Str ''path'', path),
                  (Str ''regexp'', VStr re), (Str ''stack'', VRef (Suc e))]"
    and q: "proto (H2 ! e) = Object_prototype"
    by (simp_all add: He entry_object_def)
  show ?thesis
    unfolding snapshot_of_def s
    using e lt s(2,3) p q r(1-5) r(7)[unfolded s el] Hs by simp
qed

lemma get_outside: "\<not> a < length h \<Longrightarrow> get h a k = VUndefined"
  by (subst get.simps) simp

lemma take_from_nth:
  assumes "length h \<le> length H" and "\<forall>a<length h. H ! a = h ! a"
  shows "take (length h) H = h"
  using assms by (intro nth_equalityI) simp_all

lemma dump_router_failure:
  assumes "dump_router E w0 app rundir fp = (Inl err, w')"
  shows "files w' = files w0 \<and> log w' = log w0 \<and> listeners w' = listeners w0"
  using assms
  by (auto simp: dump_router_def writeFileSync_def new_array_object Let_def
      split: val.splits sum.splits option.splits)

lemma dump_router_success:
  assumes cl: "closed (store w0)" and app: "app < length (store w0)"
    and ok: "dump_router E w0 app rundir fp = (Inr u, w')"
  shows "log w' = log w0 \<and> listeners w' = listeners w0 \<and>
         take (length (store w0)) (store w') = store w0 \<and>
         (\<exists>dir s content.
            rundir = VStr dir \<and>
            read (store w0) (get (store w0) app (Str ''router'')) (Str ''stack'') = VRef s \<and>
            s < length (store w0) \<and> proto (store w0 ! s) = Array_prototype \<and>
            length (store w0) < length (store w') \<and>
            proto (store w' ! length (store w0)) = Array_prototype \<and>
            list_all2 (snapshot_of E (store w0) (store w') fp)
              (map snd (props (store w0 ! s)))
              (map snd (props (store w' ! length (store w0)))) \<and>
            stringify E (store w') (VRef (length (store w0))) = Inr content \<and>
            files w' = AList.update (path_join E dir ''router.json'') content (files w0))"
proof -
  define h0 where "h0 = store w0"
  define n where "n = length h0"
  define h1 where "h1 = h0 @ [array_object []]"
  define rv where "rv = get h0 app (Str ''router'')"
  from ok obtain dir where dir: "rundir = VStr dir"
    by (cases rundir) (auto simp: dump_router_def)
  have t1: "take (length h0) h1 = h0" by (simp add: h1_def)
  have g1: "get h1 app (Str ''router'') = rv"
    using app by (simp add: h1_def rv_def h0_def get_append)
  have vr: "valid h0 rv" using cl unfolding rv_def h0_def by (rule closed_get)
  have vs: "valid h0 (read h0 rv (Str ''stack''))" using cl unfolding h0_def by (rule closed_read)
  have ls: "bindE (getV h1 rv (Str ''stack'')) (array_elements h1) =
            bindE (getV h0 rv (Str ''stack'')) (array_elements h0)"
  proof (cases "rv = VNull \<or> rv = VUndefined")
    case True
    then show ?thesis by (auto simp: getV_def bindE_def)
  next
    case False
    then show ?thesis
      by (simp add: getV_prefix[OF t1 vr] getV_read bindE_def array_elements_prefix[OF t1 vs])
  qed
  from ok obtain layers h2 content where
    a: "bindE (getV h0 rv (Str ''stack'')) (array_elements h0) = Inr layers"
    and b: "build_routers E h1 fp n 0 layers = Inr h2"
    and c: "stringify E h2 (VRef n) = Inr content"
    and d: "fs_fails E (path_join E dir ''router.json'') = None"
    and w': "w' = w0\<lparr>store := h2, files := AList.update (path_join E dir ''router.json'') content (files w0)\<rparr>"
    unfolding dump_router_def dir
    by (auto simp: writeFileSync_def new_array_object Let_def h0_def[symmetric] n_def[symmetric]
        array_object_def[of "[]", simplified, symmetric] h1_def[symmetric] g1 ls
        split: sum.splits option.splits)
  from a have nn: "rv \<noteq> VNull" "rv \<noteq> VUndefined" by (auto simp: getV_def bindE_def)
  with a have a': "array_elements h0 (read h0 rv (Str ''stack'')) = Inr layers"
    by (simp add: getV_read bindE_def)
  then obtain s where s: "read h0 rv (Str ''stack'') = VRef s" "s < length h0"
    "proto (h0 ! s) = Array_prototype" "layers = map snd (props (h0 ! s))"
    by (cases "read h0 rv (Str ''stack'')")
       (auto simp: array_elements_def is_array_def elements_def split: if_splits)
  from a' cl have vl: "\<forall>l \<in> set layers. valid h0 l" unfolding h0_def by (simp add: array_elements_valid)
  have r1: "n < length h1" by (simp add: n_def h1_def)
  have k1: "map fst (props (h1 ! n)) = map (\<lambda>j. Str (show_nat j)) [0..<0]"
    by (simp add: h1_def n_def array_object_def)
  from build_routers_inv[OF b t1 cl[folded h0_def] vl _ r1 k1]
  obtain es where e1: "length h1 \<le> length h2"
    and e2: "\<forall>a<length h1. a \<noteq> n \<longrightarrow> h2 ! a = h1 ! a"
    and e3: "proto (h2 ! n) = proto (h1 ! n)"
    and e4: "map snd (props (h2 ! n)) = map snd (props (h1 ! n)) @ map VRef es"
    and e5: "list_all2 (entry_at E h0 h2 fp n) layers es"
    by (auto simp: n_def)
  have el: "map snd (props (h2 ! n)) = map VRef es"
    using e4 by (simp add: h1_def n_def array_object_def)
  have ia: "proto (h2 ! n) = Array_prototype" "n < length h2"
    using e1 e3 r1 by (simp_all add: h1_def n_def array_object_def)
  have "list_all2 (\<lambda>l e. snapshot_of E h0 h2 fp l (VRef e)) layers es"
    using e5 by (rule list_all2_mono) (rule entry_at_snapshot)
  then have sn: "list_all2 (snapshot_of E h0 h2 fp) (map snd (props (h0 ! s))) (map snd (props (h2 ! n)))"
    by (simp add: el list_all2_map2 s(4))
  have "\<forall>a<length h0. h2 ! a = h0 ! a"
    using e2 by (simp add: h1_def n_def nth_append)
  moreover have "length h0 \<le> length h2" using e1 by (simp add: h1_def)
  ultimately have tk: "take (length h0) h2 = h0" by (intro take_from_nth)
  show ?thesis
    unfolding w' using dir s(1-3) ia sn c tk
    by (auto simp: h0_def[symmetric] rv_def[symmetric] n_def[symmetric])
qed

lemma router_store_closed: "closed router_store"
  by (simp add: closed_def router_store_def valid_def)

lemma router_store_facts:
  "length router_store = 22"
  "get router_store 5 (Str ''config'') = VRef 8"
  "get router_store 5 (Str ''loader'') = VRef 20"
  "get router_store 20 (Str ''FileLoader'') = VRef 21"
  by (simp_all add: router_store_def get.simps)

lemma router_example_eval:
  "(case dumpConfig example_env router_world 5 of
      (r, w) \<Rightarrow> (files w, log w, drop 22 (store w))) =
     ([(''/run/router.json'',
        ''/home /re/ /app/controller/home.js auth; /api /re/ show anonymous; '')],
      [],
      [\<lparr>proto = VRef 1, props = [(Str ''0'', VRef 23), (Str ''1'', VRef 25)]\<rparr>,
       \<lparr>proto = VRef 0,
        props = [(Str ''name'', VStr ''home''), (Str ''methods'', VRef 13),
                 (Str ''paramNames'', VRef 14), (Str ''path'', VStr ''/home''),
                 (Str ''regexp'', VStr ''/re/''), (Str ''stack'', VRef 24)]\<rparr>,
       \<lparr>proto = VRef 1,
        props = [(Str ''0'', VStr ''/app/controller/home.js''), (Str ''1'', VStr ''auth'')]\<rparr>,
       \<lparr>proto = VRef 0,
        props = [(Str ''name'', VNull), (Str ''methods'', VRef 13),
                 (Str ''paramNames'', VRef 14), (Str ''path'', VStr ''/api''),
                 (Str ''regexp'', VStr ''/re/''), (Str ''stack'', VRef 26)]\<rparr>,
       \<lparr>proto = VRef 1,
        props = [(Str ''0'', VStr ''show''), (Str ''1'', VStr ''anonymous'')]\<rparr>])"
  "(case dumpConfig readonly_env router_world 5 of (r, w) \<Rightarrow> (files w, log w)) =
     ([], [CoreLoggerWarn ''dumpConfig router.json error: EACCES: permission denied''])"
  by code_simp+

lemma router_example:
  "files (snd (dumpConfig example_env router_world 5)) =
     [(''/run/router.json'',
       ''/home /re/ /app/controller/home.js auth; /api /re/ show anonymous; '')]"
  "log (snd (dumpConfig example_env router_world 5)) = []"
  "drop 22 (store (snd (dumpConfig example_env router_world 5))) =
     [\<lparr>proto = VRef 1, props = [(Str ''0'', VRef 23), (Str ''1'', VRef 25)]\<rparr>,
      \<lparr>proto = VRef 0,
       props = [(Str ''name'', VStr ''home''), (Str ''methods'', VRef 13),
                (Str ''paramNames'', VRef 14), (Str ''path'', VStr ''/home''),
                (Str ''regexp'', VStr ''/re/''), (Str ''stack'', VRef 24)]\<rparr>,
      \<lparr>proto = VRef 1,
       props = [(Str ''0'', VStr ''/app/controller/home.js''), (Str ''1'', VStr ''auth'')]\<rparr>,
      \<lparr>proto = VRef 0,
       props = [(Str ''name'', VNull), (Str ''methods'', VRef 13),
                (Str ''paramNames'', VRef 14), (Str ''path'', VStr ''/api''),
                (Str ''regexp'', VStr ''/re/''), (Str ''stack'', VRef 26)]\<rparr>,
      \<lparr>proto = VRef 1,
       props = [(Str ''0'', VStr ''show''), (Str ''1'', VStr ''anonymous'')]\<rparr>]"
  "files (snd (dumpConfig readonly_env router_world 5)) = []"
  "log (snd (dumpConfig readonly_env router_world 5)) =
     [CoreLoggerWarn ''dumpConfig router.json error: EACCES: permission denied'']"
  using router_example_eval by (simp_all add: case_prod_unfold)

lemma dumpConfig_without_loader:
  "fst (dumpConfig example_env no_loader_world 5) =
     Inl (TypeError ''Cannot read properties of undefined'')"
  by code_simp

section \<open>Facts about the events\<close>

lemma run_listeners_append:
  "run_listeners E w (hs1 @ hs2) arg =
     (case run_listeners E w hs1 arg of
        (Inl e, w') \<Rightarrow> (Inl e, w')
      | (Inr u, w') \<Rightarrow> run_listeners E w' hs2 arg)"
  by (induction hs1 arbitrary: w) (auto simp: Let_def split: prod.splits sum.splits)

lemma remove_last_other:
  "entry \<notin> set tail \<Longrightarrow>
     rev (remove1 entry (rev (xs @ tail))) = rev (remove1 entry (rev xs)) @ tail"
  by (simp add: remove1_append)

lemma run_others:
  assumes "\<forall>e \<in> set hs. is_other e" and "\<forall>e \<in> set xs. is_other e"
    and "\<forall>e \<in> set tail. \<not> is_other e" and "listeners w = xs @ tail"
  shows "\<exists>xs'. (\<forall>e \<in> set xs'. is_other e) \<and>
           run_listeners E w hs arg = (Inr (), w\<lparr>listeners := xs' @ tail\<rparr>)"
  using assms
proof (induction hs arbitrary: w xs)
  case Nil
  then have "w\<lparr>listeners := xs @ tail\<rparr> = w" by simp
  with Nil show ?case by (intro exI[of _ xs]) simp
next
  case (Cons entry hs)
  obtain name once_only f where entry: "entry = (name, once_only, f)" by (cases entry)
  from Cons.prems(1) entry obtain k where f: "f = Other k"
    by (cases f) (simp_all add: is_other_def)
  from Cons.prems(1,3) have nt: "entry \<notin> set tail" by auto
  define xs1 where "xs1 = (if once_only then rev (remove1 entry (rev xs)) else xs)"
  define w1 where "w1 = (if once_only then removeListener w entry else w)"
  have l1: "listeners w1 = xs1 @ tail"
    using Cons.prems(4) remove_last_other[OF nt, of xs]
    by (simp add: w1_def xs1_def removeListener_def)
  have o1: "\<forall>e \<in> set xs1. is_other e"
    using Cons.prems(2) by (auto simp: xs1_def dest: notin_set_remove1)
  from Cons.prems(1) have oh: "\<forall>e \<in> set hs. is_other e" by simp
  from Cons.IH[OF oh o1 Cons.prems(3) l1] obtain xs' where
    a: "\<forall>e \<in> set xs'. is_other e"
    and b: "run_listeners E w1 hs arg = (Inr (), w1\<lparr>listeners := xs' @ tail\<rparr>)"
    by blast
  have c: "w1\<lparr>listeners := xs' @ tail\<rparr> = w\<lparr>listeners := xs' @ tail\<rparr>"
    by (simp add: w1_def removeListener_def)
  have "run_listeners E w (entry # hs) arg = run_listeners E w1 hs arg"
    by (simp add: entry f call_listener_def w1_def Let_def)
  with b c have "run_listeners E w (entry # hs) arg = (Inr (), w\<lparr>listeners := xs' @ tail\<rparr>)"
    by simp
  with a show ?case by blast
qed

lemma bound_not_other: "\<forall>e \<in> set (bound_listeners served). \<not> is_other e"
  by (simp add: bound_listeners_def is_other_def)

lemma filter_others:
  "\<forall>e \<in> set xs. is_other e \<Longrightarrow> \<forall>e \<in> set (filter P xs). is_other e"
  by simp

lemma emit_bound:
  assumes xs: "\<forall>e \<in> set xs. is_other e"
    and l: "listeners w = xs @ bound_listeners served"
  shows "\<exists>xs'. (\<forall>e \<in> set xs'. is_other e) \<and>
           listeners (snd (emit E w name arg)) =
             xs' @ bound_listeners (served \<or> name = ''server'') \<and>
           store (snd (emit E w name arg)) = store w \<and>
           log (snd (emit E w name arg)) =
             log w @ handler_effects E (store w) served [(name, arg)]"
proof -
  define hs where "hs = filter (\<lambda>(n, once_only, f). n = name) xs"
  have oh: "\<forall>e \<in> set hs. is_other e" using xs by (simp add: hs_def)
  from run_others[OF oh xs bound_not_other l] obtain xs' where
    a: "\<forall>e \<in> set xs'. is_other e"
    and b: "run_listeners E w hs arg = (Inr (), w\<lparr>listeners := xs' @ bound_listeners served\<rparr>)"
    by blast
  define w1 where "w1 = w\<lparr>listeners := xs' @ bound_listeners served\<rparr>"
  have e: "emit E w name arg =
      run_listeners E w1
        (filter (\<lambda>(n, once_only, f). n = name) (bound_listeners served)) arg"
    unfolding emit_def l filter_append hs_def[symmetric] run_listeners_append b w1_def by simp
  have w1: "store w1 = store w" "log w1 = log w" by (simp_all add: w1_def)
  show ?thesis
  proof (cases "name = ''cookieLimitExceed''")
    case True
    then have f: "filter (\<lambda>(n, once_only, f). n = name) (bound_listeners served) =
        [(''cookieLimitExceed'', False, OnCookieLimitExceed)]"
      by (simp add: bound_listeners_def)
    have lw: "listeners w1 = xs' @ bound_listeners served" by (simp add: w1_def)
    show ?thesis
    proof (cases "cookieLimitExceed_error E (store w) arg")
      case (Inl err)
      then have "emit E w name arg = (Inl err, w1)"
        unfolding e f by (simp add: call_listener_def cookieLimitExceed_listener_def w1)
      with a True Inl lw w1 show ?thesis by (intro exI[of _ xs']) simp
    next
      case (Inr p)
      obtain logger err where p: "p = (logger, err)" by (cases p)
      from Inr p have "emit E w name arg = (Inr (), emit_log [CoreLoggerError logger err] w1)"
        unfolding e f by (simp add: call_listener_def cookieLimitExceed_listener_def w1)
      with a True Inr p lw w1 show ?thesis
        by (intro exI[of _ xs']) (simp add: emit_log_def)
    qed
  next
    case False
    show ?thesis
    proof (cases "name = ''server'' \<and> \<not> served")
      case True
      define w2 where "w2 = removeListener w1 (''server'', True, OnServer)"
      have l2: "listeners w2 = xs' @ bound_listeners True"
        using True by (simp add: w2_def w1_def removeListener_def bound_listeners_def)
      have w2: "store w2 = store w" "log w2 = log w" by (simp_all add: w2_def w1_def removeListener_def)
      have "emit E w name arg = (fst (onServer w2 arg), snd (onServer w2 arg))"
        unfolding e using True
        by (simp add: bound_listeners_def call_listener_def w2_def Let_def split: sum.splits prod.splits)
      moreover have "listeners (snd (onServer w2 arg)) = xs' @ bound_listeners True"
        "store (snd (onServer w2 arg)) = store w"
        "log (snd (onServer w2 arg)) = log w @ handler_effects E (store w) served [(name, arg)]"
        using True False l2 w2
        by (auto simp: onServer_def emit_log_def Let_def getV_def split: sum.splits val.splits)
      ultimately show ?thesis using a True by (intro exI[of _ xs']) simp
    next
      case other: False
      with False have "emit E w name arg = (Inr (), w1)"
        unfolding e by (auto simp: bound_listeners_def)
      with a other False show ?thesis
        by (intro exI[of _ xs']) (auto simp: w1_def bound_listeners_def)
    qed
  qed
qed

lemma emits_bound:
  assumes "\<forall>e \<in> set xs. is_other e" and "listeners w = xs @ bound_listeners served"
  shows "log (emits E w es) = log w @ handler_effects E (store w) served es \<and>
         store (emits E w es) = store w"
  using assms
proof (induction es arbitrary: w xs served)
  case Nil
  then show ?case by simp
next
  case (Cons a es)
  obtain name arg where a: "a = (name, arg)" by (cases a)
  from emit_bound[OF Cons.prems, of E name arg] obtain xs' where
    o: "\<forall>e \<in> set xs'. is_other e"
    and l: "listeners (snd (emit E w name arg)) = xs' @ bound_listeners (served \<or> name = ''server'')"
    and s: "store (snd (emit E w name arg)) = store w"
    and g: "log (snd (emit E w name arg)) = log w @ handler_effects E (store w) served [(name, arg)]"
    by blast
  from Cons.IH[OF o l] s g show ?case
    by (simp add: a)
qed

lemma graceful_once:
  "length (filter is_graceful (handler_effects E h served es)) \<le> (if served then 0 else 1)"
proof (induction es arbitrary: served)
  case Nil
  then show ?case by simp
next
  case (Cons a es)
  obtain name arg where a: "a = (name, arg)" by (cases a)
  from Cons.IH[of True] Cons.IH[of False] show ?case
    by (auto simp: a is_graceful_def split: sum.splits prod.splits)
qed

lemma BIND_EVENTS_listeners:
  "listeners (BIND_EVENTS w) = listeners w @ bound_listeners False"
  "store (BIND_EVENTS w) = store w" "log (BIND_EVENTS w) = log w" "files (BIND_EVENTS w) = files w"
  by (simp_all add: BIND_EVENTS_def on_def once_def bound_listeners_def)

lemma events_example:
  "fst (dumpConfig example_env events_world 5) = Inr ()"
  "warnConfusedConfig (snd (dumpConfig example_env events_world 5)) 5 =
     (Inr (), snd (dumpConfig example_env events_world 5))"
  "listeners (snd (dumpConfig example_env events_world 5)) =
     [(''server'', True, Other 0), (''cookieLimitExceed'', False, Other 1)]"
  "handler_effects example_env (store (snd (dumpConfig example_env events_world 5))) False
     [(''server'', VRef 12), (''cookieLimitExceed'', VRef 11), (''server'', VRef 12),
      (''cookieLimitExceed'', VRef 11)] =
     [Graceful (VRef 12), ServerOn (VRef 12) ''clientError'' OnClientError,
      CoreLoggerError (VRef 10)
        \<lparr>e_message = ''cookie sid'' @ [CHR 0x27] @ ''s length(5) exceed the limit(4093)'',
         e_name = ''CookieLimitExceedError'', e_key = VStr ''sid'', e_cookie = VStr ''abcde''\<rparr>,
      CoreLoggerError (VRef 10)
        \<lparr>e_message = ''cookie sid'' @ [CHR 0x27] @ ''s length(5) exceed the limit(4093)'',
         e_name = ''CookieLimitExceedError'', e_key = VStr ''sid'', e_cookie = VStr ''abcde''\<rparr>]"
  by code_simp+

section \<open>Claims about the context factory\<close>

text \<open>
  Claim C1. Two contexts A and B are created by \<^verbatim>\<open>createContext\<close>, B after any
  sequence of property writes to A's three facets. For each facet (context, request,
  response): A's and B's facet are different objects derived from the same application
  prototype; a write of any field to A's facet is read back on A and leaves every read on
  B's facet unchanged, and the other way round; and a field that \<^verbatim>\<open>createContext\<close>
  does not assign and that was never written reads, on both, what the shared prototype
  holds.
\<close>

theorem context_isolation:
  assumes wf: "wf_app h app"
    and A: "createContext h app reqA resA tA = Inr (h1, A)"
    and rA: "valid h reqA"
    and ws: "\<forall>(a, k, v) \<in> set ws. \<exists>f. facet_of h1 A f = VRef a"
    and rB: "valid h reqB" "reqB \<noteq> VNull" "reqB \<noteq> VUndefined"
  shows "\<exists>h2 B.
           createContext (puts ws h1) app reqB resB tB = Inr (h2, B) \<and>
           (\<forall>f. \<exists>a b p.
              facet_of h1 A f = VRef a \<and> facet_of h2 B f = VRef b \<and> a \<noteq> b \<and>
              getV h app (prototype_key f) = Inr (VRef p) \<and>
              (\<forall>k k' v.
                 get (put h2 a k v) a k = v \<and> get (put h2 a k v) b k' = get h2 b k' \<and>
                 get (put h2 b k v) b k = v \<and> get (put h2 b k v) a k' = get h2 a k') \<and>
              (\<forall>k. k \<notin> set (assigned f) \<longrightarrow>
                 get h2 b k = get h2 p k \<and>
                 ((a, k) \<notin> written ws \<longrightarrow> get h2 a k = get h2 p k)))"
proof -
  define n where "n = length h"
  have nn: "reqA \<noteq> VNull" "reqA \<noteq> VUndefined"
    using createContext_null[OF wf, of reqA resA tA] A by auto
  from wf rA nn obtain a c r s urlA where w:
    "app = VRef a" "a < length h"
    "get h a (Str ''context'') = VRef c" "c < length h"
    "get h a (Str ''request'') = VRef r" "r < length h"
    "get h a (Str ''response'') = VRef s" "s < length h"
    and cA: "createContext h app reqA resA tA =
       Inr (h @ [contextObj (length h) (VRef c) app reqA resA
                   (VBound (get h c (Str ''onerror'')) (VRef (length h))) urlA tA,
                 requestObj (length h) (VRef r) app reqA resA urlA,
                 responseObj (length h) (VRef s) app reqA resA],
            length h)"
    by (rule createContext_wf[of h app reqA resA tA]) blast
  let ?xs = "[contextObj (length h) (VRef c) app reqA resA
                   (VBound (get h c (Str ''onerror'')) (VRef (length h))) urlA tA,
                 requestObj (length h) (VRef r) app reqA resA urlA,
                 responseObj (length h) (VRef s) app reqA resA]"
  from A cA have h1: "h1 = h @ ?xs" and An: "A = n" by (auto simp: n_def)
  have len1: "length h1 = n + 3" by (simp add: h1 n_def)
  have fA: "facet_of h1 A Context = VRef n" "facet_of h1 A Request = VRef (Suc n)"
    "facet_of h1 A Response = VRef (Suc (Suc n))"
    unfolding h1 An n_def
    by (rule facet_of_new; rule contextObj_facets)+
  have tg: "\<forall>(a, k, v) \<in> set ws. n \<le> a \<and> a < n + 3"
  proof (clarify)
    fix a k v assume "(a, k, v) \<in> set ws"
    with ws obtain f where "facet_of h1 A f = VRef a" by blast
    then show "n \<le> a \<and> a < n + 3" using fA by (cases f) auto
  qed
  define H where "H = puts ws h1"
  have lenH: "length H = n + 3" by (simp add: H_def len1)
  have wfH: "wf_app H app"
    unfolding H_def h1 using wf tg by (intro wf_app_puts) (auto simp: n_def)
  have old: "\<And>b k. b < n \<Longrightarrow> get H b k = get h b k"
  proof -
    fix b k assume b: "b < n"
    have "get H b k = get h1 b k"
      unfolding H_def using tg b by (intro get_puts_above) auto
    then show "get H b k = get h b k" using b by (simp add: h1 get_append n_def)
  qed
  have vB: "valid H reqB" using rB(1) by (auto simp: valid_def lenH n_def split: val.splits)
  from wfH vB rB(2,3) obtain a' c' r' s' urlB where w':
    "app = VRef a'" "a' < length H"
    "get H a' (Str ''context'') = VRef c'" "c' < length H"
    "get H a' (Str ''request'') = VRef r'" "r' < length H"
    "get H a' (Str ''response'') = VRef s'" "s' < length H"
    and cB: "createContext H app reqB resB tB =
       Inr (H @ [contextObj (length H) (VRef c') app reqB resB
                   (VBound (get H c' (Str ''onerror'')) (VRef (length H))) urlB tB,
                 requestObj (length H) (VRef r') app reqB resB urlB,
                 responseObj (length H) (VRef s') app reqB resB],
            length H)"
    by (rule createContext_wf[of H app reqB resB tB]) blast
  have eqs: "a' = a" "c' = c" "r' = r" "s' = s"
    using w w' old[of a] by (auto simp: n_def)
  let ?h2 = "H @ [contextObj (length H) (VRef c) app reqB resB
                   (VBound (get H c (Str ''onerror'')) (VRef (length H))) urlB tB,
                 requestObj (length H) (VRef r) app reqB resB urlB,
                 responseObj (length H) (VRef s) app reqB resB]"
  have fB: "facet_of ?h2 (length H) Context = VRef (length H)"
    "facet_of ?h2 (length H) Request = VRef (Suc (length H))"
    "facet_of ?h2 (length H) Response = VRef (Suc (Suc (length H)))"
    by (rule facet_of_new; rule contextObj_facets)+
  have pA: "proto (?h2 ! n) = VRef c" "proto (?h2 ! Suc n) = VRef r"
    "proto (?h2 ! Suc (Suc n)) = VRef s"
    by (simp_all add: nth_append lenH H_def h1 n_def contextObj_def requestObj_def responseObj_def)
  have pB: "proto (?h2 ! (n + 3)) = VRef c" "proto (?h2 ! Suc (n + 3)) = VRef r"
    "proto (?h2 ! Suc (Suc (n + 3))) = VRef s"
    by (simp_all add: nth_append lenH contextObj_def requestObj_def responseObj_def)
  have oB: "\<And>k. k \<notin> set (assigned Context) \<Longrightarrow> map_of (props (?h2 ! (n + 3))) k = None"
    "\<And>k. k \<notin> set (assigned Request) \<Longrightarrow> map_of (props (?h2 ! Suc (n + 3))) k = None"
    "\<And>k. k \<notin> set (assigned Response) \<Longrightarrow>
          map_of (props (?h2 ! Suc (Suc (n + 3)))) k = None"
    by (simp_all add: nth_append lenH contextObj_def requestObj_def responseObj_def)
  have oA: "\<And>k. k \<notin> set (assigned Context) \<Longrightarrow> (n, k) \<notin> written ws \<Longrightarrow>
          map_of (props (?h2 ! n)) k = None"
    "\<And>k. k \<notin> set (assigned Request) \<Longrightarrow> (Suc n, k) \<notin> written ws \<Longrightarrow>
          map_of (props (?h2 ! Suc n)) k = None"
    "\<And>k. k \<notin> set (assigned Response) \<Longrightarrow> (Suc (Suc n), k) \<notin> written ws \<Longrightarrow>
          map_of (props (?h2 ! Suc (Suc n))) k = None"
    by (simp_all add: nth_append lenH H_def own_puts h1 n_def
          contextObj_def requestObj_def responseObj_def)
  have gp: "getV h app (Str ''context'') = Inr (VRef c)"
    "getV h app (Str ''request'') = Inr (VRef r)"
    "getV h app (Str ''response'') = Inr (VRef s)"
    using w by (simp_all add: getV_Ref)
  have lt: "c < n" "r < n" "s < n" using w by (simp_all add: n_def)
  have main: "\<exists>a b p.
              facet_of h1 A f = VRef a \<and> facet_of ?h2 (length H) f = VRef b \<and> a \<noteq> b \<and>
              getV h app (prototype_key f) = Inr (VRef p) \<and>
              (\<forall>k k' v.
                 get (put ?h2 a k v) a k = v \<and> get (put ?h2 a k v) b k' = get ?h2 b k' \<and>
                 get (put ?h2 b k v) b k = v \<and> get (put ?h2 b k v) a k' = get ?h2 a k') \<and>
              (\<forall>k. k \<notin> set (assigned f) \<longrightarrow>
                 get ?h2 b k = get ?h2 p k \<and>
                 ((a, k) \<notin> written ws \<longrightarrow> get ?h2 a k = get ?h2 p k))" for f
  proof (cases f)
    case Context
    have "n \<noteq> n + 3 \<and>
          (\<forall>k k' v.
             get (put ?h2 n k v) n k = v \<and>
             get (put ?h2 n k v) (n + 3) k' = get ?h2 (n + 3) k' \<and>
             get (put ?h2 (n + 3) k v) (n + 3) k = v \<and>
             get (put ?h2 (n + 3) k v) n k' = get ?h2 n k') \<and>
          (\<forall>k. k \<notin> set (assigned Context) \<longrightarrow>
             get ?h2 (n + 3) k = get ?h2 c k \<and>
             ((n, k) \<notin> written ws \<longrightarrow> get ?h2 n k = get ?h2 c k))"
      by (rule isolated_pair[OF _ _ pA(1) pB(1) lt(1) oB(1) oA(1)]) (simp_all add: lenH)
    with fA(1) fB(1) gp(1) show ?thesis
      unfolding Context lenH prototype_key.simps by blast
  next
    case Request
    have "Suc n \<noteq> Suc (n + 3) \<and>
          (\<forall>k k' v.
             get (put ?h2 (Suc n) k v) (Suc n) k = v \<and>
             get (put ?h2 (Suc n) k v) (Suc (n + 3)) k' = get ?h2 (Suc (n + 3)) k' \<and>
             get (put ?h2 (Suc (n + 3)) k v) (Suc (n + 3)) k = v \<and>
             get (put ?h2 (Suc (n + 3)) k v) (Suc n) k' = get ?h2 (Suc n) k') \<and>
          (\<forall>k. k \<notin> set (assigned Request) \<longrightarrow>
             get ?h2 (Suc (n + 3)) k = get ?h2 r k \<and>
             ((Suc n, k) \<notin> written ws \<longrightarrow> get ?h2 (Suc n) k = get ?h2 r k))"
      by (rule isolated_pair[OF _ _ pA(2) pB(2) _ oB(2) oA(2)])
         (use lt in \<open>simp_all add: lenH\<close>)
    with fA(2) fB(2) gp(2) show ?thesis
      unfolding Request lenH prototype_key.simps by blast
  next
    case Response
    have "Suc (Suc n) \<noteq> Suc (Suc (n + 3)) \<and>
          (\<forall>k k' v.
             get (put ?h2 (Suc (Suc n)) k v) (Suc (Suc n)) k = v \<and>
             get (put ?h2 (Suc (Suc n)) k v) (Suc (Suc (n + 3))) k' =
               get ?h2 (Suc (Suc (n + 3))) k' \<and>
             get (put ?h2 (Suc (Suc (n + 3))) k v) (Suc (Suc (n + 3))) k = v \<and>
             get (put ?h2 (Suc (Suc (n + 3))) k v) (Suc (Suc n)) k' =
               get ?h2 (Suc (Suc n)) k') \<and>
          (\<forall>k. k \<notin> set (assigned Response) \<longrightarrow>
             get ?h2 (Suc (Suc (n + 3))) k = get ?h2 s k \<and>
             ((Suc (Suc n), k) \<notin> written ws \<longrightarrow>
                get ?h2 (Suc (Suc n)) k = get ?h2 s k))"
      by (rule isolated_pair[OF _ _ pA(3) pB(3) _ oB(3) oA(3)])
         (use lt in \<open>simp_all add: lenH\<close>)
    with fA(3) fB(3) gp(3) show ?thesis
      unfolding Response lenH prototype_key.simps by blast
  qed
  show ?thesis
    using cB main unfolding H_def[symmetric] eqs by blast
qed

text \<open>
  On the example store: context A is created, \<^verbatim>\<open>A.request.user = 'alice'\<close> is
  written, then context B is created.
\<close>

theorem context_isolation_witness:
  "\<exists>h1 A h2 B.
     createContext example_store (VRef 5) (VRef 6) (VRef 7) 1000 = Inr (h1, A) \<and>
     createContext (puts [(9, Str ''user'', VStr ''alice'')] h1) (VRef 5) (VRef 6) (VRef 7) 2000
       = Inr (h2, B) \<and>
     (\<forall>f. \<exists>a b p.
        facet_of h1 A f = VRef a \<and> facet_of h2 B f = VRef b \<and> a \<noteq> b \<and>
        getV example_store (VRef 5) (prototype_key f) = Inr (VRef p) \<and>
        (\<forall>k k' v.
           get (put h2 a k v) a k = v \<and> get (put h2 a k v) b k' = get h2 b k' \<and>
           get (put h2 b k v) b k = v \<and> get (put h2 b k v) a k' = get h2 a k') \<and>
        (\<forall>k. k \<notin> set (assigned f) \<longrightarrow>
           get h2 b k = get h2 p k \<and>
           ((a, k) \<notin> written [(9, Str ''user'', VStr ''alice'')] \<longrightarrow>
              get h2 a k = get h2 p k)))"
proof -
  let ?h1 = "example_store @
       [contextObj 8 (VRef 2) (VRef 5) (VRef 6) (VRef 7)
          (VBound (VFun ''onerror'') (VRef 8)) (VStr ''/home'') 1000,
        requestObj 8 (VRef 3) (VRef 5) (VRef 6) (VRef 7) (VStr ''/home''),
        responseObj 8 (VRef 4) (VRef 5) (VRef 6) (VRef 7)]"
  have A: "createContext example_store (VRef 5) (VRef 6) (VRef 7) 1000 = Inr (?h1, 8)"
    by (rule example_store_createContext)
  have f: "facet_of ?h1 8 Request = VRef 9"
    using facet_of_new(2)[of _ example_store, OF contextObj_facets]
    by (simp add: example_store_length)
  have "\<exists>f. facet_of ?h1 8 f = VRef 9"
    by (rule exI[of _ Request]) (rule f)
  then have ws: "\<forall>(a, k, v) \<in> set [(9, Str ''user'', VStr ''alice'')].
                   \<exists>f. facet_of ?h1 8 f = VRef a"
    by simp
  have v: "valid example_store (VRef 6)"
    by (simp add: valid_def example_store_length)
  show ?thesis
    using context_isolation[OF example_store_wf A v ws v, of "VRef 7" 2000] A
    by blast
qed

text \<open>
  Claim C2. Right after \<^verbatim>\<open>createContext(req, res)\<close> with a request that is not
  \<^verbatim>\<open>null\<close> or \<^verbatim>\<open>undefined\<close>: the context's \<^verbatim>\<open>request\<close> and \<^verbatim>\<open>response\<close>
  are objects r and s with \<^verbatim>\<open>r.ctx\<close> and \<^verbatim>\<open>s.ctx\<close> the context,
  \<^verbatim>\<open>r.response\<close> = s and \<^verbatim>\<open>s.request\<close> = r; \<^verbatim>\<open>app\<close>, \<^verbatim>\<open>req\<close> and
  \<^verbatim>\<open>res\<close> of all three are the application, \<open>req\<close> and \<open>res\<close>; and
  \<^verbatim>\<open>originalUrl\<close> of the context and of the request is \<^verbatim>\<open>req.url\<close>.
\<close>

theorem createContext_back_references:
  assumes "wf_app h app" and "valid h req" and "req \<noteq> VNull" and "req \<noteq> VUndefined"
  shows "\<exists>h' c r s url.
           createContext h app req res now = Inr (h', c) \<and>
           get h' c (Str ''request'') = VRef r \<and>
           get h' c (Str ''response'') = VRef s \<and>
           get h' r (Str ''ctx'') = VRef c \<and>
           get h' s (Str ''ctx'') = VRef c \<and>
           get h' r (Str ''response'') = VRef s \<and>
           get h' s (Str ''request'') = VRef r \<and>
           get h' c (Str ''app'') = app \<and> get h' r (Str ''app'') = app \<and>
           get h' s (Str ''app'') = app \<and>
           get h' c (Str ''req'') = req \<and> get h' r (Str ''req'') = req \<and>
           get h' s (Str ''req'') = req \<and>
           get h' c (Str ''res'') = res \<and> get h' r (Str ''res'') = res \<and>
           get h' s (Str ''res'') = res \<and>
           getV h' req (Str ''url'') = Inr url \<and>
           get h' c (Str ''originalUrl'') = url \<and> get h' r (Str ''originalUrl'') = url"
proof -
  from assms obtain c r s url where w:
    "getV h req (Str ''url'') = Inr url"
    "createContext h app req res now =
       Inr (h @ [contextObj (length h) (VRef c) app req res
                   (VBound (get h c (Str ''onerror'')) (VRef (length h))) url now,
                 requestObj (length h) (VRef r) app req res url,
                 responseObj (length h) (VRef s) app req res],
            length h)"
    by (rule createContext_wf[of h app req res now]) blast
  let ?co = "contextObj (length h) (VRef c) app req res
                   (VBound (get h c (Str ''onerror'')) (VRef (length h))) url now"
  let ?ro = "requestObj (length h) (VRef r) app req res url"
  let ?so = "responseObj (length h) (VRef s) app req res"
  let ?h = "h @ [?co, ?ro, ?so]"
  have g0: "\<And>k v. map_of (props ?co) k = Some v \<Longrightarrow> get ?h (length h) k = v"
    by (rule get_own) (simp_all add: nth_append)
  have g1: "\<And>k v. map_of (props ?ro) k = Some v \<Longrightarrow> get ?h (Suc (length h)) k = v"
    by (rule get_own) (simp_all add: nth_append)
  have g2: "\<And>k v. map_of (props ?so) k = Some v \<Longrightarrow> get ?h (Suc (Suc (length h))) k = v"
    by (rule get_own) (simp_all add: nth_append)
  have u: "getV ?h req (Str ''url'') = Inr url"
    using w(1) assms(2) by (simp add: getV_valid_append)
  have "createContext h app req res now = Inr (?h, length h) \<and>
           get ?h (length h) (Str ''request'') = VRef (Suc (length h)) \<and>
           get ?h (length h) (Str ''response'') = VRef (Suc (Suc (length h))) \<and>
           get ?h (Suc (length h)) (Str ''ctx'') = VRef (length h) \<and>
           get ?h (Suc (Suc (length h))) (Str ''ctx'') = VRef (length h) \<and>
           get ?h (Suc (length h)) (Str ''response'') = VRef (Suc (Suc (length h))) \<and>
           get ?h (Suc (Suc (length h))) (Str ''request'') = VRef (Suc (length h)) \<and>
           get ?h (length h) (Str ''app'') = app \<and> get ?h (Suc (length h)) (Str ''app'') = app \<and>
           get ?h (Suc (Suc (length h))) (Str ''app'') = app \<and>
           get ?h (length h) (Str ''req'') = req \<and> get ?h (Suc (length h)) (Str ''req'') = req \<and>
           get ?h (Suc (Suc (length h))) (Str ''req'') = req \<and>
           get ?h (length h) (Str ''res'') = res \<and> get ?h (Suc (length h)) (Str ''res'') = res \<and>
           get ?h (Suc (Suc (length h))) (Str ''res'') = res \<and>
           getV ?h req (Str ''url'') = Inr url \<and>
           get ?h (length h) (Str ''originalUrl'') = url \<and>
           get ?h (Suc (length h)) (Str ''originalUrl'') = url"
    by (intro conjI w(2) u; (rule g0 g1 g2; simp add: contextObj_def requestObj_def responseObj_def))
  then show ?thesis by blast
qed

theorem createContext_back_references_witness:
  "wf_app example_store (VRef 5) \<and> valid example_store (VRef 6) \<and>
   (\<exists>h' c r s url.
      createContext example_store (VRef 5) (VRef 6) (VRef 7) 1000 = Inr (h', c) \<and>
      get h' c (Str ''request'') = VRef r \<and>
      get h' c (Str ''response'') = VRef s \<and>
      get h' r (Str ''ctx'') = VRef c \<and>
      get h' s (Str ''ctx'') = VRef c \<and>
      get h' r (Str ''response'') = VRef s \<and>
      get h' s (Str ''request'') = VRef r \<and>
      get h' c (Str ''app'') = VRef 5 \<and> get h' r (Str ''app'') = VRef 5 \<and>
      get h' s (Str ''app'') = VRef 5 \<and>
      get h' c (Str ''req'') = VRef 6 \<and> get h' r (Str ''req'') = VRef 6 \<and>
      get h' s (Str ''req'') = VRef 6 \<and>
      get h' c (Str ''res'') = VRef 7 \<and> get h' r (Str ''res'') = VRef 7 \<and>
      get h' s (Str ''res'') = VRef 7 \<and>
      getV h' (VRef 6) (Str ''url'') = Inr url \<and>
      get h' c (Str ''originalUrl'') = url \<and> get h' r (Str ''originalUrl'') = url)"
proof -
  have v: "valid example_store (VRef 6)"
    by (simp add: valid_def example_store_length)
  show ?thesis
    using createContext_back_references[OF example_store_wf v, of "VRef 7" 1000]
      example_store_wf v
    by simp
qed

text \<open>
  Claim C8. On an application whose prototypes are in place, \<^verbatim>\<open>createContext(req, res)\<close>
  with a request that is not \<^verbatim>\<open>null\<close> or \<^verbatim>\<open>undefined\<close> returns a context and throws
  nothing. All it does to the store is add three objects after the existing ones, which it
  leaves as they were: the context, request and response, derived from the application's
  three prototypes and holding exactly the properties the function assigns, among them
  \<^verbatim>\<open>onerror\<close> bound to the context and \<^verbatim>\<open>starttime\<close> set to the current time.
\<close>

theorem createContext_no_error_paths:
  assumes "wf_app h app" and "valid h req" and "req \<noteq> VNull" and "req \<noteq> VUndefined"
  shows "\<exists>h' c f.
           createContext h app req res now = Inr (h', c) \<and>
           c = length h \<and> length h' = length h + 3 \<and> take (length h) h' = h \<and>
           getV h app (Str ''context'') = Inr (proto (h' ! c)) \<and>
           getV h app (Str ''request'') = Inr (proto (h' ! (c + 1))) \<and>
           getV h app (Str ''response'') = Inr (proto (h' ! (c + 2))) \<and>
           map fst (props (h' ! c)) = assigned Context \<and>
           map fst (props (h' ! (c + 1))) = assigned Request \<and>
           map fst (props (h' ! (c + 2))) = assigned Response \<and>
           getV h (proto (h' ! c)) (Str ''onerror'') = Inr f \<and> is_function f \<and>
           get h' c (Str ''onerror'') = VBound f (VRef c) \<and>
           get h' c (Str ''starttime'') = VNum now"
proof -
  from assms obtain a c r s url where w:
    "app = VRef a"
    "get h a (Str ''context'') = VRef c"
    "is_function (get h c (Str ''onerror''))"
    "get h a (Str ''request'') = VRef r"
    "get h a (Str ''response'') = VRef s"
    "createContext h app req res now =
       Inr (h @ [contextObj (length h) (VRef c) app req res
                   (VBound (get h c (Str ''onerror'')) (VRef (length h))) url now,
                 requestObj (length h) (VRef r) app req res url,
                 responseObj (length h) (VRef s) app req res],
            length h)"
    by (rule createContext_wf[of h app req res now]) blast
  let ?co = "contextObj (length h) (VRef c) app req res
                   (VBound (get h c (Str ''onerror'')) (VRef (length h))) url now"
  let ?h = "h @ [?co, requestObj (length h) (VRef r) app req res url,
                 responseObj (length h) (VRef s) app req res]"
  have g0: "\<And>k v. map_of (props ?co) k = Some v \<Longrightarrow> get ?h (length h) k = v"
    by (rule get_own) (simp_all add: nth_append)
  have "createContext h app req res now = Inr (?h, length h) \<and>
           length h = length h \<and> length ?h = length h + 3 \<and> take (length h) ?h = h \<and>
           getV h app (Str ''context'') = Inr (proto (?h ! length h)) \<and>
           getV h app (Str ''request'') = Inr (proto (?h ! (length h + 1))) \<and>
           getV h app (Str ''response'') = Inr (proto (?h ! (length h + 2))) \<and>
           map fst (props (?h ! length h)) = assigned Context \<and>
           map fst (props (?h ! (length h + 1))) = assigned Request \<and>
           map fst (props (?h ! (length h + 2))) = assigned Response \<and>
           getV h (proto (?h ! length h)) (Str ''onerror'') = Inr (get h c (Str ''onerror'')) \<and>
           is_function (get h c (Str ''onerror'')) \<and>
           get ?h (length h) (Str ''onerror'') =
             VBound (get h c (Str ''onerror'')) (VRef (length h)) \<and>
           get ?h (length h) (Str ''starttime'') = VNum now"
    using w
    by (intro conjI g0)
       (simp_all add: nth_append getV_Ref contextObj_def requestObj_def responseObj_def)
  then show ?thesis by blast
qed

theorem createContext_no_error_paths_witness:
  "wf_app example_store (VRef 5) \<and> valid example_store (VRef 6) \<and>
   (\<exists>h' c f.
      createContext example_store (VRef 5) (VRef 6) (VRef 7) 1000 = Inr (h', c) \<and>
      c = length example_store \<and> length h' = length example_store + 3 \<and>
      take (length example_store) h' = example_store \<and>
      getV example_store (VRef 5) (Str ''context'') = Inr (proto (h' ! c)) \<and>
      getV example_store (VRef 5) (Str ''request'') = Inr (proto (h' ! (c + 1))) \<and>
      getV example_store (VRef 5) (Str ''response'') = Inr (proto (h' ! (c + 2))) \<and>
      map fst (props (h' ! c)) = assigned Context \<and>
      map fst (props (h' ! (c + 1))) = assigned Request \<and>
      map fst (props (h' ! (c + 2))) = assigned Response \<and>
      getV example_store (proto (h' ! c)) (Str ''onerror'') = Inr f \<and> is_function f \<and>
      get h' c (Str ''onerror'') = VBound f (VRef c) \<and>
      get h' c (Str ''starttime'') = VNum 1000)"
proof -
  have v: "valid example_store (VRef 6)"
    by (simp add: valid_def example_store_length)
  show ?thesis
    using createContext_no_error_paths[OF example_store_wf v, of "VRef 7" 1000]
      example_store_wf v
    by simp
qed

section \<open>Claims about the anonymous context\<close>









section \<open>Claims about \<^verbatim>\<open>locals\<close>\<close>








section \<open>Claims about the malformed-client handler\<close>

text \<open>
  Claim C5. For an error and a socket object, \<^verbatim>\<open>onClientError\<close> logs one error line
  with the socket's remote address and port and the error's code and message, then writes
  to the socket the bytes of \<^verbatim>\<open>HTTP/1.1 400 Bad Request\<close>, CRLF,
  \<^verbatim>\<open>Content-Length: \<close> and the decimal byte length of the body, CRLF CRLF and the
  body, then closes the socket. The body has 168 bytes, so the header says 168. The object
  store is left as it was: no context is created.
\<close>

theorem onClientError_bad_request:
  assumes "err \<noteq> VNull" and "err \<noteq> VUndefined" and "socket = VRef s"
  shows "onClientError w err socket =
           (Inr (),
            w\<lparr>log := log w @
               [LoggerError ''A client (%s:%d) error [%s] occurred: %s''
                  [read (store w) socket (Str ''remoteAddress''),
                   read (store w) socket (Str ''remotePort''),
                   read (store w) err (Str ''code''),
                   read (store w) err (Str ''message'')],
                SocketWrite socket
                  (units ''HTTP/1.1 400 Bad Request'' @ [13, 10] @
                   units ''Content-Length: '' @
                   units (show_nat (length (utf8 DEFAULT_BAD_REQUEST_HTML))) @
                   [13, 10, 13, 10] @ utf8 DEFAULT_BAD_REQUEST_HTML),
                SocketEnd socket]\<rparr>) \<and>
         store (snd (onClientError w err socket)) = store w \<and>
         length (utf8 DEFAULT_BAD_REQUEST_HTML) = 168 \<and> show_nat 168 = ''168''"
proof -
  have a: "\<forall>c \<in> set (units ''HTTP/1.1 400 Bad Request''). c < 128"
    "\<forall>c \<in> set (units ''Content-Length: ''). c < 128"
    by (simp_all add: units_def)
  have bytes: "utf8 DEFAULT_BAD_REQUEST_RESPONSE =
          units ''HTTP/1.1 400 Bad Request'' @ [13, 10] @
          units ''Content-Length: '' @
          units (show_nat (length (utf8 DEFAULT_BAD_REQUEST_HTML))) @
          [13, 10, 13, 10] @ utf8 DEFAULT_BAD_REQUEST_HTML"
    by (simp add: DEFAULT_BAD_REQUEST_RESPONSE_def DEFAULT_BAD_REQUEST_HTML_LENGTH_def
          byteLength_def utf8_ascii_append a show_nat_ascii utf8_Cons utf8_unit_def)
  have run: "onClientError w err socket =
           (Inr (),
            w\<lparr>log := log w @
               [LoggerError ''A client (%s:%d) error [%s] occurred: %s''
                  [read (store w) socket (Str ''remoteAddress''),
                   read (store w) socket (Str ''remotePort''),
                   read (store w) err (Str ''code''),
                   read (store w) err (Str ''message'')],
                SocketWrite socket (utf8 DEFAULT_BAD_REQUEST_RESPONSE),
                SocketEnd socket]\<rparr>)"
    using assms
    by (simp add: onClientError_def getV_read socket_end_def emit_log_def)
  show ?thesis
    using run html_bytes show_168 by (simp add: bytes byteLength_def)
qed

theorem onClientError_bad_request_witness:
  "VRef 9 \<noteq> VNull \<and> VRef 9 \<noteq> VUndefined \<and>
   onClientError socket_world (VRef 9) (VRef 8) =
     (Inr (),
      socket_world\<lparr>log := log socket_world @
         [LoggerError ''A client (%s:%d) error [%s] occurred: %s''
            [read (store socket_world) (VRef 8) (Str ''remoteAddress''),
             read (store socket_world) (VRef 8) (Str ''remotePort''),
             read (store socket_world) (VRef 9) (Str ''code''),
             read (store socket_world) (VRef 9) (Str ''message'')],
          SocketWrite (VRef 8)
            (units ''HTTP/1.1 400 Bad Request'' @ [13, 10] @
             units ''Content-Length: '' @
             units (show_nat (length (utf8 DEFAULT_BAD_REQUEST_HTML))) @
             [13, 10, 13, 10] @ utf8 DEFAULT_BAD_REQUEST_HTML),
          SocketEnd (VRef 8)]\<rparr>) \<and>
   store (snd (onClientError socket_world (VRef 9) (VRef 8))) = store socket_world \<and>
   length (utf8 DEFAULT_BAD_REQUEST_HTML) = 168 \<and> show_nat 168 = ''168''"
  using onClientError_bad_request[of "VRef 9" "VRef 8" 8 socket_world] by simp

section \<open>Claims about the secret keys\<close>

text \<open>
  Claim C4. With \<^verbatim>\<open>config.keys\<close> a non-empty string and nothing cached, the getter
  returns a new array holding the trimmed segments between the commas, caches it and prints
  nothing; for \<^verbatim>\<open>'a, b ,c'\<close> the segments are a, b, c. With a cached value the getter
  returns it and changes nothing, so after any writes that leave the cache slot and the
  array alone (to \<^verbatim>\<open>config.keys\<close>, say) it still returns the same array with the same
  elements. With \<^verbatim>\<open>config.keys\<close> absent or empty it throws
  \<^verbatim>\<open>Please set config.keys first\<close>; the two lines of guidance, the second with the
  path of \<^verbatim>\<open>config/config.default.js\<close> under \<^verbatim>\<open>config.baseDir\<close>, are printed
  before that when \<^verbatim>\<open>config.env\<close> is \<^verbatim>\<open>local\<close> or \<^verbatim>\<open>unittest\<close>, and nothing is
  printed in any other environment.
\<close>

theorem keys_accessor:
  assumes app: "app < length (store w)"
    and cfg: "get (store w) app (Str ''config'') = VRef c"
  shows "(\<not> truthy (get (store w) app KEYS) \<and> get (store w) c (Str ''keys'') = VStr s \<and> s \<noteq> [] \<longrightarrow>
           (\<exists>arr w'.
              keys_get join w app = (Inr (VRef arr), w') \<and>
              arr = length (store w) \<and>
              is_array (store w') (VRef arr) \<and>
              elements (store w') (VRef arr) = map (\<lambda>x. VStr (trim x)) (split_on CHR '','' s) \<and>
              log w' = log w \<and>
              (\<forall>ws. (app, KEYS) \<notin> written ws \<and> (\<forall>(a, k, v) \<in> set ws. a \<noteq> arr) \<longrightarrow>
                 keys_get join (w'\<lparr>store := puts ws (store w')\<rparr>) app =
                   (Inr (VRef arr), w'\<lparr>store := puts ws (store w')\<rparr>) \<and>
                 elements (puts ws (store w')) (VRef arr) = elements (store w') (VRef arr)))) \<and>
         (truthy (get (store w) app KEYS) \<longrightarrow>
            keys_get join w app = (Inr (get (store w) app KEYS), w)) \<and>
         (\<not> truthy (get (store w) app KEYS) \<and> \<not> truthy (get (store w) c (Str ''keys'')) \<longrightarrow>
            (if get (store w) c (Str ''env'') = VStr ''local'' \<or>
                get (store w) c (Str ''env'') = VStr ''unittest''
             then \<forall>b. get (store w) c (Str ''baseDir'') = VStr b \<longrightarrow>
                    keys_get join w app =
                      (Inl (Error ''Please set config.keys first''),
                       w\<lparr>log := log w @
                          [ConsoleError ''Cookie need secret key to sign and encrypt.'' [],
                           ConsoleError ''Please add `config.keys` in %s''
                             [VStr (join b ''config/config.default.js'')]]\<rparr>)
             else keys_get join w app = (Inl (Error ''Please set config.keys first''), w))) \<and>
         map trim (split_on CHR '','' ''a, b ,c'') = [''a'', ''b'', ''c'']"
proof (intro conjI impI)
  show "map trim (split_on CHR '','' ''a, b ,c'') = [''a'', ''b'', ''c'']"
    by (simp add: trim_def is_space_def)
next
  assume "truthy (get (store w) app KEYS)"
  then show "keys_get join w app = (Inr (get (store w) app KEYS), w)"
    by (rule keys_get_cached)
next
  assume a: "\<not> truthy (get (store w) app KEYS) \<and> \<not> truthy (get (store w) c (Str ''keys''))"
  show "if get (store w) c (Str ''env'') = VStr ''local'' \<or>
           get (store w) c (Str ''env'') = VStr ''unittest''
        then \<forall>b. get (store w) c (Str ''baseDir'') = VStr b \<longrightarrow>
               keys_get join w app =
                 (Inl (Error ''Please set config.keys first''),
                  w\<lparr>log := log w @
                     [ConsoleError ''Cookie need secret key to sign and encrypt.'' [],
                      ConsoleError ''Please add `config.keys` in %s''
                        [VStr (join b ''config/config.default.js'')]]\<rparr>)
        else keys_get join w app = (Inl (Error ''Please set config.keys first''), w)"
    using a cfg by (auto simp: keys_get_def getV_Ref read_def emit_log_def Let_def)
next
  assume a: "\<not> truthy (get (store w) app KEYS) \<and> get (store w) c (Str ''keys'') = VStr s \<and> s \<noteq> []"
  define vs where "vs = map (\<lambda>x. VStr (trim x)) (split_on CHR '','' s)"
  define arr where "arr = length (store w)"
  define h2 where "h2 = put (fst (new_array (store w) vs)) app KEYS (VRef arr)"
  from a have fresh: "\<not> truthy (get (store w) app KEYS)"
    and ks: "get (store w) c (Str ''keys'') = VStr s" "s \<noteq> []" by simp_all
  note k = keys_get_compute[OF app cfg fresh ks, folded vs_def arr_def]
  have c: "keys_get join w app = (Inr (VRef arr), w\<lparr>store := h2\<rparr>)"
    "own h2 app KEYS = Some (VRef arr)"
    "length h2 = Suc arr"
    "is_array h2 (VRef arr)"
    "elements h2 (VRef arr) = vs"
    unfolding h2_def by (rule k)+
  have later: "keys_get join (w\<lparr>store := h2, store := puts ws h2\<rparr>) app =
                 (Inr (VRef arr), w\<lparr>store := h2, store := puts ws h2\<rparr>) \<and>
               elements (puts ws h2) (VRef arr) = elements h2 (VRef arr)"
    if "(app, KEYS) \<notin> written ws \<and> (\<forall>(a, k, v) \<in> set ws. a \<noteq> arr)" for ws
  proof -
    have lt: "app < length h2"
      using app by (simp add: h2_def new_array_def alloc_def)
    have "get (puts ws h2) app KEYS = VRef arr"
      using c(2) lt that by (intro get_puts_own) simp_all
    then have 1: "keys_get join (w\<lparr>store := h2, store := puts ws h2\<rparr>) app =
                 (Inr (VRef arr), w\<lparr>store := h2, store := puts ws h2\<rparr>)"
      using keys_get_cached[of "w\<lparr>store := h2, store := puts ws h2\<rparr>" app join] by simp
    have "puts ws h2 ! arr = h2 ! arr"
      using that by (intro nth_puts_other) auto
    then have 2: "elements (puts ws h2) (VRef arr) = elements h2 (VRef arr)"
      by (simp add: elements_def)
    from 1 2 show ?thesis by simp
  qed
  show "\<exists>arr w'.
              keys_get join w app = (Inr (VRef arr), w') \<and>
              arr = length (store w) \<and>
              is_array (store w') (VRef arr) \<and>
              elements (store w') (VRef arr) = map (\<lambda>x. VStr (trim x)) (split_on CHR '','' s) \<and>
              log w' = log w \<and>
              (\<forall>ws. (app, KEYS) \<notin> written ws \<and> (\<forall>(a, k, v) \<in> set ws. a \<noteq> arr) \<longrightarrow>
                 keys_get join (w'\<lparr>store := puts ws (store w')\<rparr>) app =
                   (Inr (VRef arr), w'\<lparr>store := puts ws (store w')\<rparr>) \<and>
                 elements (puts ws (store w')) (VRef arr) = elements (store w') (VRef arr))"
    apply (rule exI[of _ arr], rule exI[of _ "w\<lparr>store := h2\<rparr>"])
    using c(1,4,5) later by (simp add: vs_def arr_def)
qed

text \<open>
  With \<^verbatim>\<open>keys: 'a, b ,c'\<close>, also after \<^verbatim>\<open>config.keys\<close> is overwritten; and without keys
  in the \<^verbatim>\<open>local\<close> environment.
\<close>

theorem keys_accessor_witness:
  "(\<exists>arr w'.
      keys_get example_join keys_world 5 = (Inr (VRef arr), w') \<and>
      elements (store w') (VRef arr) = [VStr ''a'', VStr ''b'', VStr ''c''] \<and>
      log w' = log keys_world \<and>
      keys_get example_join (w'\<lparr>store := puts [(8, Str ''keys'', VStr ''zzz'')] (store w')\<rparr>) 5 =
        (Inr (VRef arr), w'\<lparr>store := puts [(8, Str ''keys'', VStr ''zzz'')] (store w')\<rparr>) \<and>
      elements (puts [(8, Str ''keys'', VStr ''zzz'')] (store w')) (VRef arr) =
        [VStr ''a'', VStr ''b'', VStr ''c'']) \<and>
   keys_get example_join nokeys_world 5 =
     (Inl (Error ''Please set config.keys first''),
      nokeys_world\<lparr>log := log nokeys_world @
         [ConsoleError ''Cookie need secret key to sign and encrypt.'' [],
          ConsoleError ''Please add `config.keys` in %s''
            [VStr (example_join ''/srv/app'' ''config/config.default.js'')]]\<rparr>)"
proof -
  have k: "5 < length (store keys_world)"
    "get (store keys_world) 5 (Str ''config'') = VRef 8"
    "\<not> truthy (get (store keys_world) 5 KEYS)"
    "get (store keys_world) 8 (Str ''keys'') = VStr ''a, b ,c''"
    by (simp_all add: keys_world_def config_store_facts)
  have n: "5 < length (store nokeys_world)"
    "get (store nokeys_world) 5 (Str ''config'') = VRef 8"
    "\<not> truthy (get (store nokeys_world) 5 KEYS)"
    "\<not> truthy (get (store nokeys_world) 8 (Str ''keys''))"
    "get (store nokeys_world) 8 (Str ''env'') = VStr ''local''"
    "get (store nokeys_world) 8 (Str ''baseDir'') = VStr ''/srv/app''"
    by (simp_all add: nokeys_world_def config_store_facts)
  note K = keys_accessor[OF k(1,2), of "''a, b ,c''" example_join]
  note N = keys_accessor[OF n(1,2), of "''a, b ,c''" example_join]
  have abc: "map (\<lambda>x. VStr (trim x)) (split_on CHR '','' ''a, b ,c'') =
               [VStr ''a'', VStr ''b'', VStr ''c'']"
    using K[THEN conjunct2, THEN conjunct2, THEN conjunct2] by simp
  from K[THEN conjunct1] k(3,4) obtain arr w' where a:
    "keys_get example_join keys_world 5 = (Inr (VRef arr), w')"
    "arr = length (store keys_world)"
    "elements (store w') (VRef arr) = map (\<lambda>x. VStr (trim x)) (split_on CHR '','' ''a, b ,c'')"
    "log w' = log keys_world"
    "\<forall>ws. (5, KEYS) \<notin> written ws \<and> (\<forall>(a, k, v) \<in> set ws. a \<noteq> arr) \<longrightarrow>
       keys_get example_join (w'\<lparr>store := puts ws (store w')\<rparr>) 5 =
         (Inr (VRef arr), w'\<lparr>store := puts ws (store w')\<rparr>) \<and>
       elements (puts ws (store w')) (VRef arr) = elements (store w') (VRef arr)"
    by auto
  have arr: "arr = 9" using a(2) by (simp add: keys_world_def config_store_facts)
  have "(5, KEYS) \<notin> written [(8, Str ''keys'', VStr ''zzz'')] \<and>
        (\<forall>(a, k, v) \<in> set [(8, Str ''keys'', VStr ''zzz'')]. a \<noteq> arr)"
    by (simp add: written_def arr)
  with a(5) have later:
    "keys_get example_join (w'\<lparr>store := puts [(8, Str ''keys'', VStr ''zzz'')] (store w')\<rparr>) 5 =
       (Inr (VRef arr), w'\<lparr>store := puts [(8, Str ''keys'', VStr ''zzz'')] (store w')\<rparr>)"
    "elements (puts [(8, Str ''keys'', VStr ''zzz'')] (store w')) (VRef arr) =
       elements (store w') (VRef arr)"
    by blast+
  have first: "\<exists>arr w'.
      keys_get example_join keys_world 5 = (Inr (VRef arr), w') \<and>
      elements (store w') (VRef arr) = [VStr ''a'', VStr ''b'', VStr ''c''] \<and>
      log w' = log keys_world \<and>
      keys_get example_join (w'\<lparr>store := puts [(8, Str ''keys'', VStr ''zzz'')] (store w')\<rparr>) 5 =
        (Inr (VRef arr), w'\<lparr>store := puts [(8, Str ''keys'', VStr ''zzz'')] (store w')\<rparr>) \<and>
      elements (puts [(8, Str ''keys'', VStr ''zzz'')] (store w')) (VRef arr) =
        [VStr ''a'', VStr ''b'', VStr ''c'']"
    using a(1,3,4) later unfolding abc by (intro exI[of _ arr] exI[of _ w']) simp
  have second: "keys_get example_join nokeys_world 5 =
     (Inl (Error ''Please set config.keys first''),
      nokeys_world\<lparr>log := log nokeys_world @
         [ConsoleError ''Cookie need secret key to sign and encrypt.'' [],
          ConsoleError ''Please add `config.keys` in %s''
            [VStr (example_join ''/srv/app'' ''config/config.default.js'')]]\<rparr>)"
    using N[THEN conjunct2, THEN conjunct2, THEN conjunct1] n(3,4,5,6) by simp
  from first second show ?thesis by (rule conjI)
qed

section \<open>Claims about the configuration warnings\<close>



subsection \<open>Claim C7: the router snapshot of \<^verbatim>\<open>dumpConfig\<close>\<close>

text \<open>
  Claim C7. Once \<^verbatim>\<open>super.dumpConfig()\<close> has returned, with \<^verbatim>\<open>this.config\<close> and
  \<^verbatim>\<open>this.loader.FileLoader\<close> there (the two reads before the \<^verbatim>\<open>try\<close>),
  \<^verbatim>\<open>dumpConfig\<close> returns normally, whatever happens while the snapshot is built and
  written. If that fails, no file has changed and one warning
  \<^verbatim>\<open>dumpConfig router.json error: <message>\<close> is logged. If it succeeds, nothing is
  logged, no object that existed has changed, \<^verbatim>\<open>router.stack\<close> is an array, and the file
  \<^verbatim>\<open>router.json\<close> in \<^verbatim>\<open>config.rundir\<close> holds the serialisation of a new array with one
  element for each element of \<^verbatim>\<open>router.stack\<close>, in order: an object with exactly the
  properties \<^verbatim>\<open>name\<close>, \<^verbatim>\<open>methods\<close>, \<^verbatim>\<open>paramNames\<close>, \<^verbatim>\<open>path\<close>, \<^verbatim>\<open>regexp\<close> and
  \<^verbatim>\<open>stack\<close>, the first four those of the layer, \<^verbatim>\<open>regexp\<close> the string form of the
  layer's, and \<^verbatim>\<open>stack\<close> a new array of the identifiers of the layer's handlers, each
  the first truthy of its load path, its \<^verbatim>\<open>_name\<close> and its \<^verbatim>\<open>name\<close>, else
  \<^verbatim>\<open>anonymous\<close>. In the example, the two layers give the two entries shown, with the
  identifiers of a handler with a load path, of one with a \<^verbatim>\<open>_name\<close>, of a named and of
  an anonymous function.
\<close>

theorem dumpConfig_router_snapshot:
  assumes sup: "super_dumpConfig E w = (Inr (), w0)"
    and cfg: "get (store w0) app (Str ''config'') = config"
      "config \<noteq> VNull" "config \<noteq> VUndefined"
    and ldr: "get (store w0) app (Str ''loader'') = loader"
      "loader \<noteq> VNull" "loader \<noteq> VUndefined"
    and fl: "read (store w0) loader (Str ''FileLoader'') = fileLoader"
      "fileLoader \<noteq> VNull" "fileLoader \<noteq> VUndefined"
    and cl: "closed (store w0)"
  shows "\<exists>w1. dumpConfig E w app = (Inr (), w1) \<and>
           (case dump_router E w0 app (read (store w0) config (Str ''rundir''))
                   (read (store w0) fileLoader (Str ''FULLPATH'')) of
              (Inl err, w') \<Rightarrow>
                 files w1 = files w0 \<and>
                 log w1 = log w0 @
                   [CoreLoggerWarn (''dumpConfig router.json error: '' @ message err)]
            | (Inr u, w') \<Rightarrow>
                 log w1 = log w0 \<and>
                 take (length (store w0)) (store w1) = store w0 \<and>
                 (\<exists>dir s content.
                    read (store w0) config (Str ''rundir'') = VStr dir \<and>
                    read (store w0) (get (store w0) app (Str ''router'')) (Str ''stack'') =
                      VRef s \<and>
                    s < length (store w0) \<and> proto (store w0 ! s) = Array_prototype \<and>
                    length (store w0) < length (store w1) \<and>
                    proto (store w1 ! length (store w0)) = Array_prototype \<and>
                    list_all2
                      (snapshot_of E (store w0) (store w1)
                         (read (store w0) fileLoader (Str ''FULLPATH'')))
                      (map snd (props (store w0 ! s)))
                      (map snd (props (store w1 ! length (store w0)))) \<and>
                    stringify E (store w1) (VRef (length (store w0))) = Inr content \<and>
                    files w1 =
                      AList.update (path_join E dir ''router.json'') content (files w0)))"
proof -
  define rundir where "rundir = read (store w0) config (Str ''rundir'')"
  define fp where "fp = read (store w0) fileLoader (Str ''FULLPATH'')"
  from cfg have app: "app < length (store w0)" using get_outside[of app "store w0"] by auto
  from cfg have g: "getV (store w0) (get (store w0) app (Str ''config'')) (Str ''rundir'') = Inr rundir"
    by (simp add: getV_read rundir_def)
  from ldr fl have g2: "getV (store w0) (get (store w0) app (Str ''loader'')) (Str ''FileLoader'') = Inr fileLoader"
    by (simp add: getV_read)
  from fl have g3: "getV (store w0) fileLoader (Str ''FULLPATH'') = Inr fp"
    by (simp add: getV_read fp_def)
  obtain r w' where d: "dump_router E w0 app rundir fp = (r, w')" by (cases "dump_router E w0 app rundir fp")
  show ?thesis
  proof (cases r)
    case (Inl err)
    with d dump_router_failure[of E w0 app rundir fp err w'] show ?thesis
      by (simp add: dumpConfig_def sup g g2 g3 rundir_def[symmetric] fp_def[symmetric] emit_log_def)
  next
    case (Inr u)
    with d dump_router_success[OF cl app, of E rundir fp u w'] show ?thesis
      by (simp add: dumpConfig_def sup g g2 g3 rundir_def[symmetric] fp_def[symmetric])
  qed
qed

theorem dumpConfig_router_snapshot_witness:
  "super_dumpConfig example_env router_world = (Inr (), router_world) \<and>
   super_dumpConfig readonly_env router_world = (Inr (), router_world) \<and>
   get (store router_world) 5 (Str ''config'') = VRef 8 \<and>
   get (store router_world) 5 (Str ''loader'') = VRef 20 \<and>
   read (store router_world) (VRef 20) (Str ''FileLoader'') = VRef 21 \<and>
   closed (store router_world) \<and>
   (\<exists>w1. dumpConfig example_env router_world 5 = (Inr (), w1) \<and> log w1 = [] \<and>
      files w1 =
        [(''/run/router.json'',
          ''/home /re/ /app/controller/home.js auth; /api /re/ show anonymous; '')] \<and>
      drop 22 (store w1) =
        [\<lparr>proto = VRef 1, props = [(Str ''0'', VRef 23), (Str ''1'', VRef 25)]\<rparr>,
         \<lparr>proto = VRef 0,
          props = [(Str ''name'', VStr ''home''), (Str ''methods'', VRef 13),
                   (Str ''paramNames'', VRef 14), (Str ''path'', VStr ''/home''),
                   (Str ''regexp'', VStr ''/re/''), (Str ''stack'', VRef 24)]\<rparr>,
         \<lparr>proto = VRef 1,
          props = [(Str ''0'', VStr ''/app/controller/home.js''), (Str ''1'', VStr ''auth'')]\<rparr>,
         \<lparr>proto = VRef 0,
          props = [(Str ''name'', VNull), (Str ''methods'', VRef 13),
                   (Str ''paramNames'', VRef 14), (Str ''path'', VStr ''/api''),
                   (Str ''regexp'', VStr ''/re/''), (Str ''stack'', VRef 26)]\<rparr>,
         \<lparr>proto = VRef 1,
          props = [(Str ''0'', VStr ''show''), (Str ''1'', VStr ''anonymous'')]\<rparr>]) \<and>
   (\<exists>w1. dumpConfig readonly_env router_world 5 = (Inr (), w1) \<and> files w1 = [] \<and>
      log w1 = [CoreLoggerWarn ''dumpConfig router.json error: EACCES: permission denied''])"
proof -
  have s1: "super_dumpConfig example_env router_world = (Inr (), router_world)"
    by (simp add: example_env_def)
  have s2: "super_dumpConfig readonly_env router_world = (Inr (), router_world)"
    by (simp add: readonly_env_def example_env_def)
  have c: "get (store router_world) 5 (Str ''config'') = VRef 8"
    and l: "get (store router_world) 5 (Str ''loader'') = VRef 20"
    and f: "read (store router_world) (VRef 20) (Str ''FileLoader'') = VRef 21"
    by (simp_all add: router_world_def router_store_facts read_def)
  have cl: "closed (store router_world)" by (simp add: router_world_def router_store_closed)
  from dumpConfig_router_snapshot[OF s1 c _ _ l _ _ f _ _ cl]
  obtain w1 where w1: "dumpConfig example_env router_world 5 = (Inr (), w1)" by auto
  then have e1: "snd (dumpConfig example_env router_world 5) = w1" by simp
  from dumpConfig_router_snapshot[OF s2 c _ _ l _ _ f _ _ cl]
  obtain w2 where w2: "dumpConfig readonly_env router_world 5 = (Inr (), w2)" by auto
  then have e2: "snd (dumpConfig readonly_env router_world 5) = w2" by simp
  note r = router_example
  from s1 s2 c l f cl w1 w2 r(1)[unfolded e1] r(2)[unfolded e1] r(3)[unfolded e1]
    r(4)[unfolded e2] r(5)[unfolded e2]
  show ?thesis by (intro conjI exI[of _ w1] exI[of _ w2])
qed

subsection \<open>Claim C9: the listeners bound by the constructor\<close>

text \<open>
  Claim C9. When \<^verbatim>\<open>this.loader.load()\<close>, \<^verbatim>\<open>dumpConfig\<close> and the check of confused
  configurations have returned, the constructor returns with the two listeners bound after
  the listeners that were there, \<^verbatim>\<open>cookieLimitExceed\<close> with \<^verbatim>\<open>on\<close> and \<^verbatim>\<open>server\<close>
  with \<^verbatim>\<open>once\<close>, and with nothing logged or stored since the checks. From then on, with
  the other listeners being those of other code, any sequence of emissions adds to the log
  exactly what the listener of \<^verbatim>\<open>cookieLimitExceed\<close> does at every emission of that name
  and what \<^verbatim>\<open>onServer\<close> does at the first emission of \<^verbatim>\<open>server\<close>: \<^verbatim>\<open>graceful\<close> is
  called at most once, however often \<^verbatim>\<open>server\<close> is emitted.
\<close>

theorem bound_events_once_and_every:
  assumes load: "loader_load E w = (Inr (), w1)"
    and dump: "dumpConfig E w1 app = (Inr (), w2)"
    and warn: "warnConfusedConfig w2 app = (Inr (), w3)"
    and others: "list_all is_other (listeners w3)"
  shows "\<exists>w'. constructor E w app = (Inr (), w') \<and>
           store w' = store w3 \<and> log w' = log w3 \<and> files w' = files w3 \<and>
           listeners w' =
             listeners w3 @
             [(''cookieLimitExceed'', False, OnCookieLimitExceed), (''server'', True, OnServer)] \<and>
           (\<forall>es. log (emits E w' es) = log w' @ handler_effects E (store w') False es \<and>
                 length (filter is_graceful (handler_effects E (store w') False es)) \<le> 1)"
proof -
  have c: "constructor E w app = (Inr (), BIND_EVENTS w3)"
    by (simp add: constructor_def load dump warn)
  from others have o: "\<forall>e \<in> set (listeners w3). is_other e" by (simp add: list_all_iff)
  have "\<forall>es. log (emits E (BIND_EVENTS w3) es) =
               log (BIND_EVENTS w3) @ handler_effects E (store (BIND_EVENTS w3)) False es \<and>
             length (filter is_graceful (handler_effects E (store (BIND_EVENTS w3)) False es)) \<le> 1"
  proof
    fix es
    from emits_bound[OF o BIND_EVENTS_listeners(1), of E es] graceful_once[of E "store (BIND_EVENTS w3)" False es]
    show "log (emits E (BIND_EVENTS w3) es) =
               log (BIND_EVENTS w3) @ handler_effects E (store (BIND_EVENTS w3)) False es \<and>
             length (filter is_graceful (handler_effects E (store (BIND_EVENTS w3)) False es)) \<le> 1"
      by simp
  qed
  with c show ?thesis
    by (intro exI[of _ "BIND_EVENTS w3"]) (simp add: BIND_EVENTS_listeners bound_listeners_def)
qed

theorem bound_events_once_and_every_witness:
  "loader_load example_env events_world = (Inr (), events_world) \<and>
   dumpConfig example_env events_world 5 =
     (Inr (), snd (dumpConfig example_env events_world 5)) \<and>
   warnConfusedConfig (snd (dumpConfig example_env events_world 5)) 5 =
     (Inr (), snd (dumpConfig example_env events_world 5)) \<and>
   list_all is_other (listeners (snd (dumpConfig example_env events_world 5))) \<and>
   (\<exists>w'. constructor example_env events_world 5 = (Inr (), w') \<and>
      listeners w' =
        [(''server'', True, Other 0), (''cookieLimitExceed'', False, Other 1),
         (''cookieLimitExceed'', False, OnCookieLimitExceed), (''server'', True, OnServer)] \<and>
      log (emits example_env w'
             [(''server'', VRef 12), (''cookieLimitExceed'', VRef 11), (''server'', VRef 12),
              (''cookieLimitExceed'', VRef 11)]) =
        log w' @
        [Graceful (VRef 12), ServerOn (VRef 12) ''clientError'' OnClientError,
         CoreLoggerError (VRef 10)
           \<lparr>e_message = ''cookie sid'' @ [CHR 0x27] @ ''s length(5) exceed the limit(4093)'',
            e_name = ''CookieLimitExceedError'', e_key = VStr ''sid'',
            e_cookie = VStr ''abcde''\<rparr>,
         CoreLoggerError (VRef 10)
           \<lparr>e_message = ''cookie sid'' @ [CHR 0x27] @ ''s length(5) exceed the limit(4093)'',
            e_name = ''CookieLimitExceedError'', e_key = VStr ''sid'',
            e_cookie = VStr ''abcde''\<rparr>])"
proof -
  define W where "W = snd (dumpConfig example_env events_world 5)"
  have l: "loader_load example_env events_world = (Inr (), events_world)"
    by (simp add: example_env_def)
  have d: "dumpConfig example_env events_world 5 = (Inr (), W)"
    using events_example(1) by (simp add: W_def prod_eq_iff)
  have c: "warnConfusedConfig W 5 = (Inr (), W)" unfolding W_def by (rule events_example(2))
  have o: "list_all is_other (listeners W)"
    unfolding W_def events_example(3) by (simp add: is_other_def)
  from bound_events_once_and_every[OF l d c o] obtain w' where
    a: "constructor example_env events_world 5 = (Inr (), w')"
    and s: "store w' = store W"
    and ls: "listeners w' = listeners W @
             [(''cookieLimitExceed'', False, OnCookieLimitExceed), (''server'', True, OnServer)]"
    and g: "\<And>es. log (emits example_env w' es) = log w' @ handler_effects example_env (store w') False es"
    by blast
  have e: "\<exists>w'. constructor example_env events_world 5 = (Inr (), w') \<and>
      listeners w' =
        [(''server'', True, Other 0), (''cookieLimitExceed'', False, Other 1),
         (''cookieLimitExceed'', False, OnCookieLimitExceed), (''server'', True, OnServer)] \<and>
      log (emits example_env w'
             [(''server'', VRef 12), (''cookieLimitExceed'', VRef 11), (''server'', VRef 12),
              (''cookieLimitExceed'', VRef 11)]) =
        log w' @
        [Graceful (VRef 12), ServerOn (VRef 12) ''clientError'' OnClientError,
         CoreLoggerError (VRef 10)
           \<lparr>e_message = ''cookie sid'' @ [CHR 0x27] @ ''s length(5) exceed the limit(4093)'',
            e_name = ''CookieLimitExceedError'', e_key = VStr ''sid'',
            e_cookie = VStr ''abcde''\<rparr>,
         CoreLoggerError (VRef 10)
           \<lparr>e_message = ''cookie sid'' @ [CHR 0x27] @ ''s length(5) exceed the limit(4093)'',
            e_name = ''CookieLimitExceedError'', e_key = VStr ''sid'',
            e_cookie = VStr ''abcde''\<rparr>]"
  proof (intro exI[of _ w'] conjI)
    show "constructor example_env events_world 5 = (Inr (), w')" by (rule a)
    show "listeners w' =
        [(''server'', True, Other 0), (''cookieLimitExceed'', False, Other 1),
         (''cookieLimitExceed'', False, OnCookieLimitExceed), (''server'', True, OnServer)]"
      unfolding ls W_def events_example(3) by simp
    show "log (emits example_env w'
             [(''server'', VRef 12), (''cookieLimitExceed'', VRef 11), (''server'', VRef 12),
              (''cookieLimitExceed'', VRef 11)]) =
        log w' @
        [Graceful (VRef 12), ServerOn (VRef 12) ''clientError'' OnClientError,
         CoreLoggerError (VRef 10)
           \<lparr>e_message = ''cookie sid'' @ [CHR 0x27] @ ''s length(5) exceed the limit(4093)'',
            e_name = ''CookieLimitExceedError'', e_key = VStr ''sid'',
            e_cookie = VStr ''abcde''\<rparr>,
         CoreLoggerError (VRef 10)
           \<lparr>e_message = ''cookie sid'' @ [CHR 0x27] @ ''s length(5) exceed the limit(4093)'',
            e_name = ''CookieLimitExceedError'', e_key = VStr ''sid'',
            e_cookie = VStr ''abcde''\<rparr>]"
      unfolding g s W_def events_example(4) by (rule refl)
  qed
  from l d[unfolded W_def] c[unfolded W_def] o[unfolded W_def] e show ?thesis by (intro conjI)
qed

end
